theory Spec2Isabelle
  imports Main "HOL-Library.Word"
begin

section \<open>The relay contract (SignalServer.sol)\<close>

text \<open>
  An address is a 160-bit word, \<open>address(0)\<close> is the word \<open>0\<close>; \<open>bytes\<close> is a list of
  octets. The contract has no storage: the only thing a successful call leaves behind is
  one \<open>SignalSent\<close> record in the event log, so the state of the relay is that log.
\<close>

type_synonym address = "160 word"
type_synonym bytes = "8 word list"

record SignalSent =
  sender :: address
  recipient :: address
  encryptedData :: bytes

datatype revert = RecipientZero | DataEmpty

type_synonym chain = "SignalSent list"

text \<open>
  \<^verbatim>\<open>function sendSignal(address _recipient, bytes calldata _encryptedData) external {
      require(_recipient != address(0), "SignalServer: Recipient cannot be zero address");
      require(_encryptedData.length > 0, "SignalServer: Encrypted data cannot be empty");
      emit SignalSent(msg.sender, _recipient, _encryptedData);
  }\<close>
  The first argument of the model is \<open>msg.sender\<close>. A revert leaves the log as it was.
\<close>

definition sendSignal :: "address \<Rightarrow> address \<Rightarrow> bytes \<Rightarrow> chain \<Rightarrow> (revert + unit) \<times> chain" where
  "sendSignal msg_sender rcpt dat log =
     (if \<not> (rcpt \<noteq> 0) then (Inl RecipientZero, log)
      else if \<not> (length dat > 0) then (Inl DataEmpty, log)
      else (Inr (), log @ [\<lparr>sender = msg_sender, recipient = rcpt, encryptedData = dat\<rparr>]))"

section \<open>DataStream: the data-channel wrapper\<close>

subsection \<open>Base64, as \<open>Buffer\<close> does it\<close>

text \<open>
  \<open>Buffer.from(file).toString("base64")\<close> writes each group of three octets as four
  characters of the standard alphabet, and pads a last group of one or two octets with
  \<open>=\<close>. \<open>Buffer.from(s, "base64")\<close> reads the characters of the alphabet up to the
  first \<open>=\<close>, skipping any other character, and rebuilds the octets; a trailing single
  sextet gives no octet.
\<close>

definition b64_alphabet :: string where
  "b64_alphabet = ''ABCDEFGHIJKLMNOPQRSTUVWXYZabcdefghijklmnopqrstuvwxyz0123456789+/''"

fun index_of :: "'a list \<Rightarrow> 'a \<Rightarrow> nat option" where
  "index_of [] y = None"
| "index_of (x # xs) y = (if x = y then Some 0 else map_option Suc (index_of xs y))"

definition b64char :: "nat \<Rightarrow> char" where
  "b64char i = b64_alphabet ! (i mod 64)"

definition b64val :: "char \<Rightarrow> nat option" where
  "b64val c = index_of b64_alphabet c"

text \<open>The four sextets of a group of octets \<open>a b c\<close>, and the octets of four sextets.\<close>

definition sx1 :: "8 word \<Rightarrow> nat" where
  "sx1 a = unat a div 4"

definition sx2 :: "8 word \<Rightarrow> 8 word \<Rightarrow> nat" where
  "sx2 a b = (unat a mod 4) * 16 + unat b div 16"

definition sx3 :: "8 word \<Rightarrow> 8 word \<Rightarrow> nat" where
  "sx3 b c = (unat b mod 16) * 4 + unat c div 64"

definition sx4 :: "8 word \<Rightarrow> nat" where
  "sx4 c = unat c mod 64"

definition oct1 :: "nat \<Rightarrow> nat \<Rightarrow> 8 word" where
  "oct1 s1 s2 = of_nat (s1 * 4 + s2 div 16)"

definition oct2 :: "nat \<Rightarrow> nat \<Rightarrow> 8 word" where
  "oct2 s2 s3 = of_nat ((s2 mod 16) * 16 + s3 div 4)"

definition oct3 :: "nat \<Rightarrow> nat \<Rightarrow> 8 word" where
  "oct3 s3 s4 = of_nat ((s3 mod 4) * 64 + s4)"

fun b64encode :: "bytes \<Rightarrow> string" where
  "b64encode [] = []"
| "b64encode [a] = [b64char (sx1 a), b64char (sx2 a 0), CHR ''='', CHR ''='']"
| "b64encode [a, b] = [b64char (sx1 a), b64char (sx2 a b), b64char (sx3 b 0), CHR ''='']"
| "b64encode (a # b # c # rest) =
     [b64char (sx1 a), b64char (sx2 a b), b64char (sx3 b c), b64char (sx4 c)] @ b64encode rest"

fun b64sextets :: "string \<Rightarrow> nat list" where
  "b64sextets [] = []"
| "b64sextets (c # cs) =
     (if c = CHR ''='' then []
      else case b64val c of None \<Rightarrow> b64sextets cs | Some v \<Rightarrow> v # b64sextets cs)"

fun b64bytes :: "nat list \<Rightarrow> bytes" where
  "b64bytes (s1 # s2 # s3 # s4 # rest) = [oct1 s1 s2, oct2 s2 s3, oct3 s3 s4] @ b64bytes rest"
| "b64bytes [s1, s2, s3] = [oct1 s1 s2, oct2 s2 s3]"
| "b64bytes [s1, s2] = [oct1 s1 s2]"
| "b64bytes _ = []"

definition b64decode :: "string \<Rightarrow> bytes" where
  "b64decode s = b64bytes (b64sextets s)"

subsection \<open>The payload and the two directions of the channel\<close>

text \<open>
  What travels over the data channel is the text \<open>JSON.stringify(p)\<close> of an object
  \<open>p\<close> with a \<open>message\<close> and an optional \<open>file\<close>. The model writes that text as the
  object it denotes: \<open>Json p\<close>, each of the two properties being absent, \<open>null\<close> or a
  string; \<open>NotJson\<close> is any data on which \<open>JSON.parse\<close> or the destructuring throws.
  Property values of other JSON kinds, which \<open>respond\<close> never writes, are left out.
\<close>

datatype jsprop = Absent | Null | Str string

record payload =
  p_message :: jsprop
  p_file :: jsprop

datatype chan_data = NotJson | Json payload

text \<open>
  A callback is known by a number; calling it is recorded, in order, as a
  \<open>callback_call\<close>. The channel \<open>_dc\<close> of a stream is the list of what was sent on it.
\<close>

datatype callback_call = OnMessage nat string | OnFile nat bytes

record DataStream =
  remoteAddress :: address
  messageHandlers :: "nat list"
  fileHandlers :: "nat list"
  dc_sent :: "chan_data list"

definition new_DataStream :: "address \<Rightarrow> DataStream" where
  "new_DataStream addr =
     \<lparr>remoteAddress = addr, messageHandlers = [], fileHandlers = [], dc_sent = []\<rparr>"

definition onMessage :: "DataStream \<Rightarrow> nat \<Rightarrow> DataStream" where
  "onMessage ds cb = ds\<lparr>messageHandlers := messageHandlers ds @ [cb]\<rparr>"

definition onFile :: "DataStream \<Rightarrow> nat \<Rightarrow> DataStream" where
  "onFile ds cb = ds\<lparr>fileHandlers := fileHandlers ds @ [cb]\<rparr>"

text \<open>
  \<^verbatim>\<open>respond(message, file) {
    const p = { message };
    if (file) p.file = Buffer.from(file).toString("base64");
    this._dc.send(JSON.stringify(p));
  }\<close>
  \<open>file\<close> is an optional \<open>Uint8Array\<close>: \<open>None\<close> is \<open>undefined\<close>, and any array, the
  empty one too, is truthy.
\<close>

definition respond_payload :: "string \<Rightarrow> bytes option \<Rightarrow> chan_data" where
  "respond_payload msg f =
     Json \<lparr>p_message = Str msg,
           p_file = (case f of None \<Rightarrow> Absent | Some bs \<Rightarrow> Str (b64encode bs))\<rparr>"

definition respond :: "DataStream \<Rightarrow> string \<Rightarrow> bytes option \<Rightarrow> DataStream" where
  "respond ds msg f = ds\<lparr>dc_sent := dc_sent ds @ [respond_payload msg f]\<rparr>"

text \<open>
  \<^verbatim>\<open>this._dc.onmessage = (ev) => {
    try {
      const { message, file } = JSON.parse(ev.data);
      if (message != null) this._messageHandlers.forEach(cb => cb(message));
      if (file) {
        const buf = Buffer.from(file, "base64");
        this._fileHandlers.forEach(cb => cb(buf));
      }
    } catch (err) { console.warn("[DataStream] invalid payload", err); }
  };\<close>
  The result is the list of callback calls made, in order. The empty string is falsy.
\<close>

definition dc_onmessage :: "DataStream \<Rightarrow> chan_data \<Rightarrow> callback_call list" where
  "dc_onmessage ds ev =
     (case ev of
        NotJson \<Rightarrow> []
      | Json p \<Rightarrow>
          (case p_message p of
             Str m \<Rightarrow> map (\<lambda>cb. OnMessage cb m) (messageHandlers ds)
           | _ \<Rightarrow> []) @
          (case p_file p of
             Str f \<Rightarrow> if f \<noteq> [] then map (\<lambda>cb. OnFile cb (b64decode f)) (fileHandlers ds) else []
           | _ \<Rightarrow> []))"

section \<open>SignalServerSdk: the facade\<close>

subsection \<open>Collaborators outside the repository\<close>

text \<open>
  \<open>EthCrypto\<close>, \<open>JSON\<close> and the \<open>wrtc\<close> peer connection are libraries the code calls.
  Their results are parameters of the model, so that every theorem holds whatever they
  compute. A call that throws or rejects is \<open>None\<close> (or \<open>False\<close>).
\<close>

type_synonym pubkey = string
type_synonym privkey = string
type_synonym cand = string

record identity =
  publicKey :: pubkey
  privateKey :: privkey

text \<open>A session description \<open>{ type, sdp }\<close> of the peer connection.\<close>

record desc =
  dtype :: string
  dsdp :: string

text \<open>
  The decrypted object \<open>{ type, sdp, candidates }\<close> that travels through the relay.
  \<open>mcandidates = None\<close> is an object with no \<open>candidates\<close>, read as \<open>[]\<close> by the code.
\<close>

record signal_msg =
  mtype :: string
  msdp :: string
  mcandidates :: "cand list option"

text \<open>
  \<open>stringify\<close> and \<open>parse\<close> are \<open>JSON.stringify\<close> and \<open>JSON.parse\<close> on such objects
  (\<open>None\<close>: the parse, or the reading of \<open>.type\<close>, throws). \<open>encrypt pk json\<close> is
  \<open>ethers.toUtf8Bytes(EthCrypto.cipher.stringify(await EthCrypto.encryptWithPublicKey(pk, json)))\<close>
  and \<open>decrypt sk data\<close> is
  \<open>await EthCrypto.decryptWithPrivateKey(sk, EthCrypto.cipher.parse(ethers.toUtf8String(data)))\<close>.
\<close>

record codec =
  stringify :: "signal_msg \<Rightarrow> string"
  parse :: "string \<Rightarrow> signal_msg option"
  encrypt :: "pubkey \<Rightarrow> string \<Rightarrow> bytes option"
  decrypt :: "privkey \<Rightarrow> bytes \<Rightarrow> string option"

text \<open>
  What one \<open>RTCPeerConnection\<close> answers to the calls made on it. \<open>earlyCandidates\<close> are
  the candidates it hands to \<open>onicecandidate\<close> while the first calls are awaited, and
  \<open>gatheringComplete\<close> is whether \<open>pc.iceGatheringState === "complete"\<close> holds when the code
  first looks. \<open>localSdp d\<close> is \<open>pc.localDescription.sdp\<close> once \<open>d\<close> was set and gathering is
  over.
\<close>

record engine =
  createOffer :: "desc option"
  createAnswer :: "desc option"
  setLocalDescription :: "desc \<Rightarrow> bool"
  setRemoteDescription :: "desc \<Rightarrow> bool"
  addIceCandidate :: "cand \<Rightarrow> bool"
  earlyCandidates :: "cand list"
  gatheringComplete :: bool
  localSdp :: "desc \<Rightarrow> string"

text \<open>The part of a peer connection's state that the code writes.\<close>

record rtc =
  localDescription :: "desc option"
  remoteDescription :: "desc option"
  remoteCandidates :: "cand list"

definition new_RTCPeerConnection :: rtc where
  "new_RTCPeerConnection =
     \<lparr>localDescription = None, remoteDescription = None, remoteCandidates = []\<rparr>"

subsection \<open>Errors and promises\<close>

datatype error =
    DirectoryRequired
  | NoPublicKeyForPeer address
  | HelpResponseTimeout
  | EngineError
  | EncryptError
  | DecryptError
  | ParseError
  | SubmissionError
  | Reverted revert

text \<open>
  \<open>DirectoryRequired\<close> is \<open>Error("SignalServerSdk: peerPublicKeys map is required")\<close>,
  \<open>NoPublicKeyForPeer a\<close> is \<open>Error(`SignalServerSdk: no public key for peer ${a}`)\<close>,
  \<open>HelpResponseTimeout\<close> is \<open>Error("HelpResponseTimeout")\<close>; the others are what a
  collaborator rejected with or threw: \<open>DecryptError\<close> by \<open>EthCrypto.cipher.parse\<close>,
  \<open>ethers.toUtf8String\<close> or \<open>EthCrypto.decryptWithPrivateKey\<close>, \<open>ParseError\<close> by
  \<open>JSON.parse\<close> (or by the reading of \<open>.type\<close> on what it returned).

  A promise is pending or settled, and settles once: \<open>resolve\<close> and \<open>reject\<close> on a
  settled promise do nothing.
\<close>

datatype 'a promise = Pending | Fulfilled 'a | Rejected error

definition resolve :: "'a promise \<Rightarrow> 'a \<Rightarrow> 'a promise" where
  "resolve p v = (case p of Pending \<Rightarrow> Fulfilled v | _ \<Rightarrow> p)"

definition reject :: "'a promise \<Rightarrow> error \<Rightarrow> 'a promise" where
  "reject p e = (case p of Pending \<Rightarrow> Rejected e | _ \<Rightarrow> p)"

subsection \<open>The world around one facade\<close>

text \<open>
  The contract object keeps the registered listeners. \<open>OnSignal s r\<close> is the persistent
  listener of \<open>_startContractListeners\<close>, \<open>OnceAnswer s r\<close> the one-shot listener
  \<open>onAnswer\<close> of \<open>requestHelp\<close>, each under the filter \<open>SignalSent(s, r)\<close>; \<open>null\<close> as
  sender is \<open>None\<close>.
\<close>

datatype listener = OnSignal "address option" address | OnceAnswer "address option" address

fun matches :: "listener \<Rightarrow> SignalSent \<Rightarrow> bool" where
  "matches (OnSignal s r) ev = ((s = None \<or> s = Some (sender ev)) \<and> r = recipient ev)"
| "matches (OnceAnswer s r) ev = ((s = None \<or> s = Some (sender ev)) \<and> r = recipient ev)"

fun is_once :: "listener \<Rightarrow> bool" where
  "is_once (OnceAnswer s r) = True"
| "is_once (OnSignal s r) = False"

record RequestForHelp =
  req_sender :: address
  req_offer :: signal_msg
  req_timestamp :: nat

datatype app_call = HelpCb nat RequestForHelp | StreamCb nat DataStream

text \<open>
  \<open>listeners\<close>: the contract's listener table; \<open>submitted\<close>: the \<open>sendSignal\<close>
  transactions this wallet issued, accepted or not; \<open>chain\<close>: the relay's event log;
  \<open>calls\<close>: the calls made to the application's callbacks; \<open>unhandled\<close>: the
  rejections of the promises of the async relay listeners, in order. Nobody holds those
  promises (the contract object calls a listener and drops what it returns) and neither
  listener has a \<open>try\<close>, so a throw inside one is an unhandled rejection of the process.
\<close>

record world =
  listeners :: "listener list"
  submitted :: "(address \<times> bytes) list"
  chain :: chain
  calls :: "app_call list"
  unhandled :: "error list"


record sdk =
  wallet_address :: address
  identity :: identity
  peerPublicKeys :: "(address \<times> pubkey) list"
  iceServers :: "string list"
  timeoutMs :: nat
  helpCb :: "nat option"
  streamCb :: "nat option"

subsection \<open>Construction\<close>

text \<open>
  The options object of the constructor; \<open>None\<close> is a property left out. The wallet and
  the encryption identity are given (where the second constructor would draw random
  ones, they are the ones drawn).
\<close>

record options =
  opt_wallet_address :: address
  opt_encryptionIdentity :: identity
  opt_peerPublicKeys :: "(address \<times> pubkey) list option"
  opt_iceServers :: "string list option"
  opt_timeoutMs :: "nat option"

definition startContractListeners :: "sdk \<Rightarrow> world \<Rightarrow> world" where
  "startContractListeners s w = w\<lparr>listeners := listeners w @ [OnSignal None (wallet_address s)]\<rparr>"

definition build_sdk :: "options \<Rightarrow> (address \<times> pubkey) list \<Rightarrow> string list \<Rightarrow> sdk" where
  "build_sdk opts keys default_ice =
     \<lparr>wallet_address = opt_wallet_address opts,
      identity = opt_encryptionIdentity opts,
      peerPublicKeys = keys,
      iceServers = (case opt_iceServers opts of None \<Rightarrow> default_ice | Some i \<Rightarrow> i),
      timeoutMs = (case opt_timeoutMs opts of None \<Rightarrow> 20000 | Some t \<Rightarrow> t),
      helpCb = None,
      streamCb = None\<rparr>"

text \<open>
  The constructor of \<open>client/sdk/SignalServerSDK.js\<close>: \<open>peerPublicKeys = {}\<close> is the
  default, nothing is tested, the fields are stored and \<open>_startContractListeners()\<close> runs.
\<close>

definition constructor :: "options \<Rightarrow> world \<Rightarrow> (error + sdk) \<times> world" where
  "constructor opts w =
     (let s = build_sdk opts (case opt_peerPublicKeys opts of None \<Rightarrow> [] | Some m \<Rightarrow> m)
                [''stun:stun.l.google.com:19302'']
      in (Inr s, startContractListeners s w))"

text \<open>
  The constructor of the second copy of the class (the one the test suite loads):
  \<^verbatim>\<open>if (!peerPublicKeys || Object.keys(peerPublicKeys).length === 0) {
    throw new Error("SignalServerSdk: peerPublicKeys map is required");
  }\<close>
  comes first; the setter of \<open>contract\<close> then runs \<open>_startContractListeners()\<close>.
\<close>

definition constructor_v2 :: "string list \<Rightarrow> options \<Rightarrow> world \<Rightarrow> (error + sdk) \<times> world" where
  "constructor_v2 default_ice opts w =
     (case opt_peerPublicKeys opts of
        None \<Rightarrow> (Inl DirectoryRequired, w)
      | Some m \<Rightarrow>
          if length m = 0 then (Inl DirectoryRequired, w)
          else (let s = build_sdk opts m default_ice in (Inr s, startContractListeners s w)))"

definition onHelpRequest :: "sdk \<Rightarrow> nat \<Rightarrow> sdk" where
  "onHelpRequest s cb = s\<lparr>helpCb := Some cb\<rparr>"

definition onStreamOpen :: "sdk \<Rightarrow> nat \<Rightarrow> sdk" where
  "onStreamOpen s cb = s\<lparr>streamCb := Some cb\<rparr>"

subsection \<open>Internals: key lookup, sending, the persistent listener\<close>

text \<open>
  \<^verbatim>\<open>_getPeerPubKey(addr) {
    const pk = this.peerPublicKeys[addr];
    if (!pk) throw new Error(`SignalServerSdk: no public key for peer ${addr}`);
    return pk;
  }\<close>
  An entry whose key is the empty string is falsy too.
\<close>

definition getPeerPubKey :: "sdk \<Rightarrow> address \<Rightarrow> error + pubkey" where
  "getPeerPubKey s addr =
     (case map_of (peerPublicKeys s) addr of
        None \<Rightarrow> Inl (NoPublicKeyForPeer addr)
      | Some pk \<Rightarrow> if pk = [] then Inl (NoPublicKeyForPeer addr) else Inr pk)"

text \<open>
  \<open>contractWithSigner.sendSignal(to, data)\<close> followed by \<open>tx.wait()\<close>: the transaction is
  issued (and recorded in \<open>submitted\<close>); it is rejected when the node is not reachable
  (\<open>rpc_ok\<close> false) or when the contract reverts, and otherwise the contract's event is in
  the log.
\<close>

definition submit_tx :: "bool \<Rightarrow> sdk \<Rightarrow> address \<Rightarrow> bytes \<Rightarrow> world \<Rightarrow> (error + unit) \<times> world" where
  "submit_tx rpc_ok s to dat w =
     (let w1 = w\<lparr>submitted := submitted w @ [(to, dat)]\<rparr>
      in if \<not> rpc_ok then (Inl SubmissionError, w1)
         else (case sendSignal (wallet_address s) to dat (chain w1) of
                 (Inl r, log) \<Rightarrow> (Inl (Reverted r), w1)
               | (Inr u, log) \<Rightarrow> (Inr (), w1\<lparr>chain := log\<rparr>)))"

text \<open>
  \<^verbatim>\<open>async _sendSignal(to, descObj) {
    const json = JSON.stringify(descObj);
    const encrypted = await EthCrypto.encryptWithPublicKey(this._getPeerPubKey(to), json);
    const str = EthCrypto.cipher.stringify(encrypted);
    const data = ethers.toUtf8Bytes(str);
    const tx = await this.contractWithSigner.sendSignal(to, data);
    await tx.wait();
  }\<close>
  \<open>_sendCandidate\<close> has the same body; its argument is one candidate, whose JSON text
  is given.
\<close>

definition send_json :: "codec \<Rightarrow> bool \<Rightarrow> sdk \<Rightarrow> address \<Rightarrow> string \<Rightarrow> world \<Rightarrow> (error + unit) \<times> world" where
  "send_json cd rpc_ok s to json w =
     (case getPeerPubKey s to of
        Inl e \<Rightarrow> (Inl e, w)
      | Inr pk \<Rightarrow>
          (case encrypt cd pk json of
             None \<Rightarrow> (Inl EncryptError, w)
           | Some dat \<Rightarrow> submit_tx rpc_ok s to dat w))"

definition sdk_sendSignal :: "codec \<Rightarrow> bool \<Rightarrow> sdk \<Rightarrow> address \<Rightarrow> signal_msg \<Rightarrow> world \<Rightarrow> (error + unit) \<times> world" where
  "sdk_sendSignal cd rpc_ok s to descObj w = send_json cd rpc_ok s to (stringify cd descObj) w"

definition sdk_sendCandidate :: "codec \<Rightarrow> bool \<Rightarrow> sdk \<Rightarrow> address \<Rightarrow> string \<Rightarrow> world \<Rightarrow> (error + unit) \<times> world" where
  "sdk_sendCandidate cd rpc_ok s to candidate_json w = send_json cd rpc_ok s to candidate_json w"

definition notifyStreamOpen :: "sdk \<Rightarrow> DataStream \<Rightarrow> world \<Rightarrow> world" where
  "notifyStreamOpen s stream w =
     (case streamCb s of
        None \<Rightarrow> w
      | Some cb \<Rightarrow> w\<lparr>calls := calls w @ [StreamCb cb stream]\<rparr>)"

text \<open>
  The persistent listener installed by \<open>_startContractListeners\<close>, run on one relay
  event at time \<open>now\<close>:
  \<^verbatim>\<open>const { sender, encryptedData } = event.args;
  if (!encryptedData) return;
  const ct        = ethers.toUtf8String(encryptedData);
  const decrypted = await EthCrypto.decryptWithPrivateKey(this.identity.privateKey,
                                                          EthCrypto.cipher.parse(ct));
  const msg = JSON.parse(decrypted);
  if (msg.type === "offer" && this._helpCb) {
    const req = new RequestForHelp(this, sender, msg);
    this._helpCb(req);
  }\<close>
  The payload of a relay event is a byte string, which is never falsy, so the first test
  never returns. The listener has no \<open>try\<close>: when the decryption or the parse throws, the
  promise of the listener is rejected and the rejection is unhandled.
\<close>

definition on_SignalSent :: "codec \<Rightarrow> nat \<Rightarrow> sdk \<Rightarrow> SignalSent \<Rightarrow> world \<Rightarrow> world" where
  "on_SignalSent cd now s ev w =
     (case decrypt cd (privateKey (identity s)) (encryptedData ev) of
        None \<Rightarrow> w\<lparr>unhandled := unhandled w @ [DecryptError]\<rparr>
      | Some decrypted \<Rightarrow>
          (case parse cd decrypted of
             None \<Rightarrow> w\<lparr>unhandled := unhandled w @ [ParseError]\<rparr>
           | Some msg \<Rightarrow>
               if mtype msg = ''offer'' then
                 (case helpCb s of
                    None \<Rightarrow> w
                  | Some cb \<Rightarrow>
                      w\<lparr>calls := calls w @
                        [HelpCb cb \<lparr>req_sender = sender ev, req_offer = msg, req_timestamp = now\<rparr>]\<rparr>)
               else w))"

section \<open>requestHelp: one outbound attempt\<close>

text \<open>
  The local variables of one call of \<open>requestHelp(toAddr)\<close>, shared by its closures:
  the peer connection, the candidates gathered, the promise \<open>p2pPromise\<close>, whether the
  timer of \<open>setTimeout\<close> is running, and where the body of the async function stands:
  suspended on the gathering of candidates, returned (with \<open>p2pPromise\<close>), or left by a
  throw.
\<close>

datatype phase = Gathering | Returned | Threw error

record attempt =
  toAddr :: address
  pc :: rtc
  offer :: "desc option"
  candidates :: "cand list"
  p2pPromise :: "DataStream promise"
  timer :: bool
  phase :: phase

text \<open>The promise the caller of \<open>requestHelp\<close> holds.\<close>

definition outcome :: "attempt \<Rightarrow> DataStream promise" where
  "outcome a =
     (case phase a of
        Gathering \<Rightarrow> Pending
      | Threw e \<Rightarrow> Rejected e
      | Returned \<Rightarrow> p2pPromise a)"

text \<open>
  The end of the body, from the send on:
  \<^verbatim>\<open>await this._sendSignal(toAddr, {
    type: offer.type, sdp: pc.localDescription.sdp, candidates });
  const filter = this.contract.filters.SignalSent(toAddr, this.wallet.address);
  this.contract.once(filter, onAnswer);
  setTimeout(() => { ... }, this.timeoutMs);
  return p2pPromise;\<close>
  One send; when it throws, the body is left there; when it is accepted, the one-shot
  listener is registered, the timer is started and \<open>p2pPromise\<close> is returned. (The body
  only comes here with an offer; the case of no offer is there for totality.)
\<close>

definition requestHelp_send :: "codec \<Rightarrow> engine \<Rightarrow> bool \<Rightarrow> sdk \<Rightarrow> attempt \<times> world \<Rightarrow> attempt \<times> world" where
  "requestHelp_send cd eng rpc_ok s st =
     (case st of (a, w) \<Rightarrow>
        (case offer a of
           None \<Rightarrow> (a\<lparr>phase := Threw EngineError\<rparr>, w)
         | Some off \<Rightarrow>
             (case sdk_sendSignal cd rpc_ok s (toAddr a)
                     \<lparr>mtype = dtype off, msdp = localSdp eng off, mcandidates = Some (candidates a)\<rparr> w of
                (Inl e, w1) \<Rightarrow> (a\<lparr>phase := Threw e\<rparr>, w1)
              | (Inr u, w1) \<Rightarrow>
                  (a\<lparr>timer := True, phase := Returned\<rparr>,
                   w1\<lparr>listeners := listeners w1 @ [OnceAnswer (Some (toAddr a)) (wallet_address s)]\<rparr>))))"

text \<open>
  The body up to the wait for the gathering: the connection and its channel are made,
  the offer is created and set; if gathering is already complete the body goes on to the
  send, else it is suspended.
\<close>

definition requestHelp_start :: "codec \<Rightarrow> engine \<Rightarrow> bool \<Rightarrow> sdk \<Rightarrow> address \<Rightarrow> world \<Rightarrow> attempt \<times> world" where
  "requestHelp_start cd eng rpc_ok s to w =
     (let a0 = \<lparr>toAddr = to, pc = new_RTCPeerConnection, offer = None, candidates = [],
                p2pPromise = Pending, timer = False, phase = Gathering\<rparr>
      in case createOffer eng of
           None \<Rightarrow> (a0\<lparr>phase := Threw EngineError\<rparr>, w)
         | Some off \<Rightarrow>
             if \<not> setLocalDescription eng off then (a0\<lparr>phase := Threw EngineError\<rparr>, w)
             else
               (let a1 = a0\<lparr>pc := (pc a0)\<lparr>localDescription := Some off\<rparr>, offer := Some off,
                              candidates := earlyCandidates eng\<rparr>
                in if gatheringComplete eng then requestHelp_send cd eng rpc_ok s (a1, w)
                   else (a1, w)))"

text \<open>
  \<^verbatim>\<open>for (const c of msgAnswer.candidates || []) { await pc.addIceCandidate(c); }\<close>
  stops at the first candidate the engine refuses (the rejection leaves the loop); the
  candidates added before stay added.
\<close>

fun addIceCandidates :: "engine \<Rightarrow> rtc \<Rightarrow> cand list \<Rightarrow> bool \<times> rtc" where
  "addIceCandidates eng p [] = (True, p)"
| "addIceCandidates eng p (c # cs) =
     (if addIceCandidate eng c
      then addIceCandidates eng (p\<lparr>remoteCandidates := remoteCandidates p @ [c]\<rparr>) cs
      else (False, p))"

text \<open>
  The one-shot listener:
  \<^verbatim>\<open>const onAnswer = async (...args) => {
    const ev   = args[args.length - 1];
    const enc  = ev.args.encryptedData;
    if (!enc) return;
    const ct2  = ethers.toUtf8String(enc);
    const dec2 = await EthCrypto.decryptWithPrivateKey(this.identity.privateKey,
                                                       EthCrypto.cipher.parse(ct2));
    const msgAnswer = JSON.parse(dec2);
    if (msgAnswer.type === "answer") {
      await pc.setRemoteDescription({ type: msgAnswer.type, sdp: msgAnswer.sdp });
      for (const c of msgAnswer.candidates || []) { await pc.addIceCandidate(c); }
    }
  };\<close>
  It only writes the peer connection. It has no \<open>try\<close> either: the result is the
  attempt as the listener leaves it and, when the listener threw (the decryption, the
  parse, or a call on the engine), the error its promise is rejected with.
\<close>

definition onAnswer :: "codec \<Rightarrow> engine \<Rightarrow> sdk \<Rightarrow> attempt \<Rightarrow> SignalSent \<Rightarrow> attempt \<times> error option" where
  "onAnswer cd eng s a ev =
     (case decrypt cd (privateKey (identity s)) (encryptedData ev) of
        None \<Rightarrow> (a, Some DecryptError)
      | Some dec2 \<Rightarrow>
          (case parse cd dec2 of
             None \<Rightarrow> (a, Some ParseError)
           | Some msgAnswer \<Rightarrow>
               if mtype msgAnswer = ''answer'' then
                 (let d = \<lparr>dtype = mtype msgAnswer, dsdp = msdp msgAnswer\<rparr>
                  in if setRemoteDescription eng d
                     then (case addIceCandidates eng ((pc a)\<lparr>remoteDescription := Some d\<rparr>)
                                  (case mcandidates msgAnswer of None \<Rightarrow> [] | Some cs \<Rightarrow> cs) of
                             (ok, p) \<Rightarrow> (a\<lparr>pc := p\<rparr>, if ok then None else Some EngineError))
                     else (a, Some EngineError))
               else (a, None)))"

text \<open>
  What can happen to a pending attempt: the engine hands over a candidate (\<open>None\<close>: the
  closing \<open>null\<close> candidate), the engine reports that gathering is complete, the relay
  delivers an event, the timer fires, the data channel opens.
\<close>

datatype event =
    IceCandidate "cand option"
  | IceGatheringComplete
  | Relay SignalSent
  | TimerFired
  | ChannelOpen

text \<open>
  The delivery of a relay event to one registered listener that matches it. A one-shot
  listener under the filter of this attempt is this attempt's \<open>onAnswer\<close>; one under
  another filter belongs to another attempt and does not touch this one. What a
  listener throws goes to \<open>unhandled\<close>.
\<close>

definition deliver :: "codec \<Rightarrow> engine \<Rightarrow> nat \<Rightarrow> sdk \<Rightarrow> SignalSent \<Rightarrow> listener \<Rightarrow> attempt \<times> world \<Rightarrow> attempt \<times> world" where
  "deliver cd eng now s ev l st =
     (case st of (a, w) \<Rightarrow>
        (case l of
           OnSignal f r \<Rightarrow> (a, on_SignalSent cd now s ev w)
         | OnceAnswer f r \<Rightarrow>
             if f = Some (toAddr a) \<and> r = wallet_address s
             then (case onAnswer cd eng s a ev of
                     (a', None) \<Rightarrow> (a', w)
                   | (a', Some e) \<Rightarrow> (a', w\<lparr>unhandled := unhandled w @ [e]\<rparr>))
             else (a, w)))"

text \<open>
  The contract object emits a relay event: every one-shot listener that matches is
  taken out of the table (that is what \<open>once\<close> means), and every listener that matched
  is run, in the order of registration.
\<close>

definition emit :: "codec \<Rightarrow> engine \<Rightarrow> nat \<Rightarrow> sdk \<Rightarrow> SignalSent \<Rightarrow> attempt \<times> world \<Rightarrow> attempt \<times> world" where
  "emit cd eng now s ev st =
     (case st of (a, w) \<Rightarrow>
        (let hit = filter (\<lambda>l. matches l ev) (listeners w);
             w1 = w\<lparr>listeners := filter (\<lambda>l. \<not> (is_once l \<and> matches l ev)) (listeners w)\<rparr>
         in fold (deliver cd eng now s ev) hit (a, w1)))"

text \<open>
  One event. Each handler is run to its end within the step (the awaits inside
  \<open>onAnswer\<close> are not interleaved with other events). The handlers are those the body of
  \<open>requestHelp\<close> installs:
  \<^verbatim>\<open>pc.onicecandidate = (evt) => { if (evt.candidate) candidates.push(evt.candidate); };
  pc.onicegatheringstatechange = () => { if (pc.iceGatheringState === "complete") res(); };
  dc.onopen = () => {
    const stream = new DataStream(toAddr, dc);
    this._notifyStreamOpen(stream);
    resolveStream(stream);
  };
  setTimeout(() => {
    this.contract.off(filter, onAnswer);
    rejectStream(new Error("HelpResponseTimeout"));
  }, this.timeoutMs);\<close>
\<close>

definition step :: "codec \<Rightarrow> engine \<Rightarrow> bool \<Rightarrow> nat \<Rightarrow> sdk \<Rightarrow> attempt \<times> world \<Rightarrow> event \<Rightarrow> attempt \<times> world" where
  "step cd eng rpc_ok now s st e =
     (case st of (a, w) \<Rightarrow>
        (case e of
           IceCandidate co \<Rightarrow>
             (case co of None \<Rightarrow> (a, w) | Some c \<Rightarrow> (a\<lparr>candidates := candidates a @ [c]\<rparr>, w))
         | IceGatheringComplete \<Rightarrow>
             if phase a = Gathering then requestHelp_send cd eng rpc_ok s (a, w) else (a, w)
         | Relay ev \<Rightarrow> emit cd eng now s ev (a, w)
         | TimerFired \<Rightarrow>
             if timer a
             then (a\<lparr>p2pPromise := reject (p2pPromise a) HelpResponseTimeout, timer := False\<rparr>,
                   w\<lparr>listeners :=
                       remove1 (OnceAnswer (Some (toAddr a)) (wallet_address s)) (listeners w)\<rparr>)
             else (a, w)
         | ChannelOpen \<Rightarrow>
             (a\<lparr>p2pPromise := resolve (p2pPromise a) (new_DataStream (toAddr a))\<rparr>,
              notifyStreamOpen s (new_DataStream (toAddr a)) w)))"

definition run :: "codec \<Rightarrow> engine \<Rightarrow> bool \<Rightarrow> nat \<Rightarrow> sdk \<Rightarrow> attempt \<times> world \<Rightarrow> event list \<Rightarrow> attempt \<times> world" where
  "run cd eng rpc_ok now s st es = foldl (step cd eng rpc_ok now s) st es"


text \<open>
  \<open>requestHelp(toAddr)\<close> followed by the events \<open>es\<close>: the final state, and all the
  resolutions the caller saw, the one of the call itself included.
\<close>

definition requestHelp :: "codec \<Rightarrow> engine \<Rightarrow> bool \<Rightarrow> nat \<Rightarrow> sdk \<Rightarrow> address \<Rightarrow> world \<Rightarrow> event list \<Rightarrow> attempt \<times> world" where
  "requestHelp cd eng rpc_ok now s to w es =
     run cd eng rpc_ok now s (requestHelp_start cd eng rpc_ok s to w) es"


subsection \<open>Terms in which the properties of an attempt are stated\<close>

text \<open>The one-shot listener of the attempt of \<open>s\<close> towards \<open>to\<close>, as it stands in the table.\<close>

definition own_listener :: "sdk \<Rightarrow> address \<Rightarrow> listener" where
  "own_listener s to = OnceAnswer (Some to) (wallet_address s)"

text \<open>
  A valid correlated reply to that attempt: a relay event from \<open>to\<close> to the wallet of
  \<open>s\<close> whose payload decrypts under the private key of \<open>s\<close> and parses to an object of
  type \<open>answer\<close>.
\<close>

definition valid_reply :: "codec \<Rightarrow> sdk \<Rightarrow> address \<Rightarrow> SignalSent \<Rightarrow> bool" where
  "valid_reply cd s to ev =
     (sender ev = to \<and> recipient ev = wallet_address s \<and>
      (case decrypt cd (privateKey (identity s)) (encryptedData ev) of
         None \<Rightarrow> False
       | Some t \<Rightarrow> (case parse cd t of None \<Rightarrow> False | Some m \<Rightarrow> mtype m = ''answer'')))"

fun is_valid_reply_event :: "codec \<Rightarrow> sdk \<Rightarrow> address \<Rightarrow> event \<Rightarrow> bool" where
  "is_valid_reply_event cd s to (Relay ev) = valid_reply cd s to ev"
| "is_valid_reply_event cd s to e = False"

definition no_valid_reply :: "codec \<Rightarrow> sdk \<Rightarrow> address \<Rightarrow> event list \<Rightarrow> bool" where
  "no_valid_reply cd s to es = list_all (\<lambda>e. \<not> is_valid_reply_event cd s to e) es"






text \<open>
  \<open>well_subscribed\<close>: the one-shot listener of the attempt stands in the table at most
  once, and only once the body has returned; a timer runs only then too. \<open>expired\<close>: the
  timer has fired on a pending promise and the listener is out of the table.
\<close>

definition well_subscribed :: "sdk \<Rightarrow> address \<Rightarrow> attempt \<times> world \<Rightarrow> bool" where
  "well_subscribed s to st =
     (toAddr (fst st) = to \<and>
      count_list (listeners (snd st)) (own_listener s to) \<le> 1 \<and>
      (if phase (fst st) = Returned then True
       else own_listener s to \<notin> set (listeners (snd st)) \<and> \<not> timer (fst st)))"

definition expired :: "sdk \<Rightarrow> address \<Rightarrow> attempt \<times> world \<Rightarrow> bool" where
  "expired s to st =
     (toAddr (fst st) = to \<and> phase (fst st) = Returned \<and> \<not> timer (fst st) \<and>
      p2pPromise (fst st) = Rejected HelpResponseTimeout \<and>
      own_listener s to \<notin> set (listeners (snd st)))"

section \<open>RequestForHelp.accept: one accepted inbound attempt\<close>










section \<open>Concurrent sends of one facade, without and with the send queue\<close>

text \<open>
  Here \<open>_sendSignal\<close> and \<open>_sendCandidate\<close> are followed await by await. A call runs
  \<open>JSON.stringify\<close> and \<open>_getPeerPubKey\<close> at once (a missing key rejects it on the spot)
  and is then suspended three times: on \<open>EthCrypto.encryptWithPublicKey\<close> (\<open>Encrypting\<close>),
  on \<open>contractWithSigner.sendSignal(to, data)\<close>, the transaction being on its way to the
  relay (\<open>Transmitting\<close>), and on \<open>tx.wait()\<close> (\<open>Confirming\<close>); it ends \<open>Done\<close>, the relay
  having accepted the transaction, or \<open>Failed\<close>. Under the send queue a call can also be
  \<open>Waiting\<close> for the call before it, or \<open>Skipped\<close>: never run, because a call before it
  failed.
\<close>

datatype tphase = Waiting | Encrypting | Transmitting | Confirming | Done | Failed | Skipped

datatype send_kind = SendSignal | SendCandidate

record send_call =
  sc_kind :: send_kind
  sc_to :: address
  sc_json :: string

text \<open>
  The calls made on the facade, in the order they were made; the state of each; and the
  calls whose transaction has been handed to the relay, in the order of the handing over.
\<close>

record sender =
  requested :: "send_call list"
  tasks :: "tphase list"
  begun :: "nat list"

definition sender0 :: sender where
  "sender0 = \<lparr>requested = [], tasks = [], begun = []\<rparr>"

text \<open>
  What happens to the sends: the application (or \<open>requestHelp\<close>, or \<open>accept\<close>) makes a
  call, or the await on which call number \<open>i\<close> is suspended settles, fulfilled (\<open>True\<close>) or
  rejected.
\<close>

datatype sevent = Call send_call | Settle nat bool

definition start_call :: "sdk \<Rightarrow> send_call \<Rightarrow> tphase" where
  "start_call s c = (case getPeerPubKey s (sc_to c) of Inl e \<Rightarrow> Failed | Inr pk \<Rightarrow> Encrypting)"

fun advance :: "tphase \<Rightarrow> bool \<Rightarrow> tphase" where
  "advance Encrypting ok = (if ok then Transmitting else Failed)"
| "advance Transmitting ok = (if ok then Confirming else Failed)"
| "advance Confirming ok = (if ok then Done else Failed)"
| "advance p ok = p"

text \<open>The await of call \<open>i\<close> settles: the call moves on, and its transaction is recorded
  when it leaves for the relay.\<close>

definition settle :: "nat \<Rightarrow> bool \<Rightarrow> sender \<Rightarrow> sender" where
  "settle i ok st =
     (if i < length (tasks st)
      then st\<lparr>tasks := (tasks st)[i := advance (tasks st ! i) ok],
              begun := (if tasks st ! i = Encrypting \<and> ok then begun st @ [i] else begun st)\<rparr>
      else st)"

text \<open>
  The methods of the class themselves (\<open>client/sdk/SignalServerSDK.js\<close>): every call
  starts when it is made.
\<close>

definition bare_step :: "sdk \<Rightarrow> sender \<Rightarrow> sevent \<Rightarrow> sender" where
  "bare_step s st e =
     (case e of
        Call c \<Rightarrow> st\<lparr>requested := requested st @ [c], tasks := tasks st @ [start_call s c]\<rparr>
      | Settle i ok \<Rightarrow> settle i ok st)"

definition bare_run :: "sdk \<Rightarrow> sevent list \<Rightarrow> sender" where
  "bare_run s es = foldl (bare_step s) sender0 es"

text \<open>
  The queue that \<open>addSendQueue\<close> of the simulation scripts puts around the two methods:
  \<^verbatim>\<open>let queue = Promise.resolve();
  sdk._sendSignal = (to, desc) => {
    queue = queue.then(() => origSignal(to, desc));
    return queue;
  };
  sdk._sendCandidate = (to, cand) => {
    queue = queue.then(() => origCandidate(to, cand));
    return queue;
  };\<close>
  \<open>queue\<close> is the promise of the last call made. A new call is chained on it: it starts
  at once when that promise is fulfilled (no call yet, or the last one \<open>Done\<close>), it is
  never run when that promise is rejected (\<open>then\<close> has no rejection handler, so the
  rejection is passed on), and it waits otherwise.
\<close>

definition enqueue :: "sdk \<Rightarrow> send_call \<Rightarrow> sender \<Rightarrow> sender" where
  "enqueue s c st =
     st\<lparr>requested := requested st @ [c],
        tasks := tasks st @
          [if tasks st = [] \<or> last (tasks st) = Done then start_call s c
           else if last (tasks st) = Failed \<or> last (tasks st) = Skipped then Skipped
           else Waiting]\<rparr>"

text \<open>The calls from number \<open>j\<close> on that are waiting are passed the rejection.\<close>

definition skip_from :: "nat \<Rightarrow> tphase list \<Rightarrow> tphase list" where
  "skip_from j ts =
     map (\<lambda>(k, p). if j \<le> k \<and> p = Waiting then Skipped else p) (zip [0..<length ts] ts)"

text \<open>Call \<open>j\<close>, waiting, is started by the fulfilment of the call before it.\<close>

definition wake :: "sdk \<Rightarrow> nat \<Rightarrow> sender \<Rightarrow> sender" where
  "wake s j st =
     (if j < length (tasks st) \<and> j < length (requested st) \<and> tasks st ! j = Waiting
      then (let p = start_call s (requested st ! j);
                ts = (tasks st)[j := p]
            in st\<lparr>tasks := (if p = Failed then skip_from (Suc j) ts else ts)\<rparr>)
      else st)"

definition queued_step :: "sdk \<Rightarrow> sender \<Rightarrow> sevent \<Rightarrow> sender" where
  "queued_step s st e =
     (case e of
        Call c \<Rightarrow> enqueue s c st
      | Settle i ok \<Rightarrow>
          (let st1 = settle i ok st
           in if i < length (tasks st) \<and> tasks st ! i \<noteq> Done \<and> tasks st1 ! i = Done
              then wake s (Suc i) st1
              else if i < length (tasks st) \<and> tasks st ! i \<noteq> Failed \<and> tasks st1 ! i = Failed
              then st1\<lparr>tasks := skip_from (Suc i) (tasks st1)\<rparr>
              else st1))"

definition queued_run :: "sdk \<Rightarrow> sevent list \<Rightarrow> sender" where
  "queued_run s es = foldl (queued_step s) sender0 es"

text \<open>Two calls by Alice, to Bob: an offer, then a candidate.\<close>

definition call_a :: send_call where
  "call_a = \<lparr>sc_kind = SendSignal, sc_to = 2, sc_json = ''offer''\<rparr>"

definition call_b :: send_call where
  "call_b = \<lparr>sc_kind = SendCandidate, sc_to = 2, sc_json = ''candidate''\<rparr>"

text \<open>
  \<open>started\<close>: the call has been run (it is past \<open>_getPeerPubKey\<close>). \<open>handed_over\<close>: the
  call is past its encryption. \<open>serialized\<close>: a call that has been run has only accepted
  calls before it; the transactions were handed to the relay in the order of the calls,
  each by a call that is past its encryption.
\<close>

fun started :: "tphase \<Rightarrow> bool" where
  "started Waiting = False"
| "started Skipped = False"
| "started p = True"

fun handed_over :: "tphase \<Rightarrow> bool" where
  "handed_over Transmitting = True"
| "handed_over Confirming = True"
| "handed_over Done = True"
| "handed_over Failed = True"
| "handed_over p = False"

definition serialized :: "sender \<Rightarrow> bool" where
  "serialized st =
     (length (requested st) = length (tasks st) \<and>
      (\<forall>j < length (tasks st). started (tasks st ! j) \<longrightarrow> (\<forall>i < j. tasks st ! i = Done)) \<and>
      sorted_wrt (<) (begun st) \<and>
      (\<forall>j \<in> set (begun st). j < length (tasks st) \<and> handed_over (tasks st ! j)))"

section \<open>Concrete collaborators and parties, for evaluation\<close>

text \<open>
  A small codec: the payload \<open>[1]\<close> decrypts (under the private key \<open>''bob-sk''\<close> or
  \<open>''alice-sk''\<close>) to the text of an offer, \<open>[2]\<close> to the text of an answer, \<open>[3]\<close> to text
  that is not JSON, and nothing else decrypts.
\<close>

definition demo_offer :: signal_msg where
  "demo_offer = \<lparr>mtype = ''offer'', msdp = ''o'', mcandidates = Some [''c1'']\<rparr>"

definition demo_answer :: signal_msg where
  "demo_answer = \<lparr>mtype = ''answer'', msdp = ''a'', mcandidates = Some [''c2'']\<rparr>"

definition demo_codec :: codec where
  "demo_codec =
     \<lparr>stringify = (\<lambda>m. mtype m),
      parse = (\<lambda>t. if t = ''offer'' then Some demo_offer
                    else if t = ''answer'' then Some demo_answer else None),
      encrypt = (\<lambda>pk json. if json = ''offer'' then Some [1]
                            else if json = ''answer'' then Some [2] else Some [3]),
      decrypt = (\<lambda>sk dat. if dat = [1] then Some ''offer''
                           else if dat = [2] then Some ''answer''
                           else if dat = [3] then Some ''junk'' else None)\<rparr>"

definition demo_engine :: engine where
  "demo_engine =
     \<lparr>createOffer = Some \<lparr>dtype = ''offer'', dsdp = ''o''\<rparr>,
      createAnswer = Some \<lparr>dtype = ''answer'', dsdp = ''a''\<rparr>,
      setLocalDescription = (\<lambda>d. True),
      setRemoteDescription = (\<lambda>d. True),
      addIceCandidate = (\<lambda>c. True),
      earlyCandidates = [],
      gatheringComplete = False,
      localSdp = dsdp\<rparr>"

text \<open>Alice has address \<open>1\<close>, Bob has address \<open>2\<close>; each knows the other's key.\<close>

definition alice_opts :: options where
  "alice_opts =
     \<lparr>opt_wallet_address = 1,
      opt_encryptionIdentity = \<lparr>publicKey = ''alice-pk'', privateKey = ''alice-sk''\<rparr>,
      opt_peerPublicKeys = Some [(2, ''bob-pk'')],
      opt_iceServers = None,
      opt_timeoutMs = None\<rparr>"

definition bob_opts :: options where
  "bob_opts =
     \<lparr>opt_wallet_address = 2,
      opt_encryptionIdentity = \<lparr>publicKey = ''bob-pk'', privateKey = ''bob-sk''\<rparr>,
      opt_peerPublicKeys = Some [(1, ''alice-pk'')],
      opt_iceServers = None,
      opt_timeoutMs = None\<rparr>"

definition world0 :: world where
  "world0 = \<lparr>listeners = [], submitted = [], chain = [], calls = [], unhandled = []\<rparr>"

definition alice :: sdk where
  "alice = build_sdk alice_opts [(2, ''bob-pk'')] [''stun:stun.l.google.com:19302'']"

definition bob :: sdk where
  "bob = build_sdk bob_opts [(1, ''alice-pk'')] [''stun:stun.l.google.com:19302'']"

definition alice_world :: world where
  "alice_world = world0\<lparr>listeners := [OnSignal None 1]\<rparr>"

definition bob_world :: world where
  "bob_world = world0\<lparr>listeners := [OnSignal None 2]\<rparr>"

section \<open>Properties of the relay contract\<close>

text \<open>
  C8. The write operation \<open>sendSignal\<close> fails exactly when the recipient is the null
  address or the payload is empty; for every other input it succeeds and appends to the
  event log the one record made of the caller's address as sender, the given recipient and
  the given payload bytes; a failing call leaves the log unchanged, and the log is all the
  state there is.
\<close>

theorem sendSignal_spec:
  "isl (fst (sendSignal caller rcpt dat log)) = (rcpt = 0 \<or> dat = []) \<and>
   snd (sendSignal caller rcpt dat log) =
     (if rcpt = 0 \<or> dat = [] then log
      else log @ [\<lparr>sender = caller, recipient = rcpt, encryptedData = dat\<rparr>])"
  by (simp add: sendSignal_def)

section \<open>Properties of DataStream\<close>

subsection \<open>Base64 decoding inverts encoding\<close>

lemma index_of_nth: "distinct xs \<Longrightarrow> i < length xs \<Longrightarrow> index_of xs (xs ! i) = Some i"
proof (induction xs arbitrary: i)
  case Nil
  then show ?case by simp
next
  case (Cons x xs)
  show ?case
  proof (cases i)
    case 0
    then show ?thesis by simp
  next
    case (Suc j)
    with Cons.prems have "j < length xs" "distinct xs" "x \<noteq> xs ! j" by auto
    with Cons.IH Suc show ?thesis by simp
  qed
qed

lemma b64_alphabet_distinct: "distinct b64_alphabet"
  by (simp add: b64_alphabet_def)

lemma b64_alphabet_length: "length b64_alphabet = 64"
  by (simp add: b64_alphabet_def)

lemma b64val_char: "i < 64 \<Longrightarrow> b64val (b64char i) = Some i"
  unfolding b64val_def b64char_def
  using index_of_nth [OF b64_alphabet_distinct, of i] by (simp add: b64_alphabet_length)

lemma b64_pad_notin: "CHR ''='' \<notin> set b64_alphabet"
  by (simp add: b64_alphabet_def)

lemma b64char_not_pad: "b64char i \<noteq> CHR ''=''"
proof -
  have "b64char i \<in> set b64_alphabet"
    unfolding b64char_def by (rule nth_mem) (simp add: b64_alphabet_length)
  with b64_pad_notin show ?thesis by metis
qed

lemma unat8: "unat (a :: 8 word) < 256"
  using unsigned_less [of a] by simp

lemma hi_lo:
  fixes x y k :: nat
  assumes "y < k"
  shows "(x * k + y) div k = x" "(x * k + y) mod k = y"
  using assms by simp_all

lemma d16: "(b::nat) < 256 \<Longrightarrow> b div 16 < 16"
  by (simp add: less_mult_imp_div_less)

lemma d64: "(c::nat) < 256 \<Longrightarrow> c div 64 < 4"
  by (simp add: less_mult_imp_div_less)

lemma d4: "(a::nat) < 256 \<Longrightarrow> a div 4 < 64"
  by (simp add: less_mult_imp_div_less)

lemma sx1_less: "sx1 a < 64"
  unfolding sx1_def by (rule d4 [OF unat8])

lemma sx2_less: "sx2 a b < 64"
proof -
  have "unat a mod 4 \<le> 3" by simp
  with d16 [OF unat8 [of b]] show ?thesis unfolding sx2_def by linarith
qed

lemma sx3_less: "sx3 b c < 64"
proof -
  have "unat b mod 16 \<le> 15" by simp
  with d64 [OF unat8 [of c]] show ?thesis unfolding sx3_def by linarith
qed

lemma sx4_less: "sx4 c < 64"
  unfolding sx4_def by simp

lemma oct1_sx: "oct1 (sx1 a) (sx2 a b) = a"
proof -
  have "unat a div 4 * 4 + (unat a mod 4 * 16 + unat b div 16) div 16 = unat a"
    using hi_lo(1) [OF d16 [OF unat8 [of b]], of "unat a mod 4"] by simp
  then show ?thesis unfolding oct1_def sx1_def sx2_def by simp
qed

lemma oct2_sx: "oct2 (sx2 a b) (sx3 b c) = b"
proof -
  have "(unat a mod 4 * 16 + unat b div 16) mod 16 * 16
          + (unat b mod 16 * 4 + unat c div 64) div 4 = unat b"
    using hi_lo(2) [OF d16 [OF unat8 [of b]], of "unat a mod 4"]
      hi_lo(1) [OF d64 [OF unat8 [of c]], of "unat b mod 16"]
    by simp
  then show ?thesis unfolding oct2_def sx2_def sx3_def by simp
qed

lemma oct3_sx: "oct3 (sx3 b c) (sx4 c) = c"
proof -
  have "(unat b mod 16 * 4 + unat c div 64) mod 4 * 64 + unat c mod 64 = unat c"
    using hi_lo(2) [OF d64 [OF unat8 [of c]], of "unat b mod 16"] by simp
  then show ?thesis unfolding oct3_def sx3_def sx4_def by simp
qed

lemmas sx_less = sx1_less sx2_less sx3_less sx4_less

lemmas oct_sx = oct1_sx oct2_sx oct3_sx

lemma b64bytes_sextets_encode: "b64bytes (b64sextets (b64encode bs)) = bs"
  by (induction bs rule: b64encode.induct)
    (simp_all add: b64char_not_pad b64val_char sx_less oct_sx)

lemma b64_roundtrip: "b64decode (b64encode bs) = bs"
  by (simp add: b64decode_def b64bytes_sextets_encode)

lemma b64encode_empty: "(b64encode bs = []) = (bs = [])"
  by (induction bs rule: b64encode.induct) simp_all

subsection \<open>From \<open>respond\<close> to the handlers of the receiving stream\<close>

text \<open>
  C10, as the code has it. The payload that \<open>respond message file\<close> puts on the channel,
  given to the channel-message handler of a receiving stream, calls every registered
  message handler, in order of registration, with the very message string, and then,
  when a file of at least one octet was given, every registered file handler with the
  octets of that file. When no file was given, or the file given is the empty octet
  sequence, no file handler is called.
\<close>

theorem respond_onmessage_roundtrip:
  "dc_onmessage rx (last (dc_sent (respond tx msg f))) =
     map (\<lambda>cb. OnMessage cb msg) (messageHandlers rx) @
     (case f of
        None \<Rightarrow> []
      | Some bs \<Rightarrow> if bs = [] then [] else map (\<lambda>cb. OnFile cb bs) (fileHandlers rx))"
  by (cases f)
    (simp_all add: respond_def respond_payload_def dc_onmessage_def b64_roundtrip b64encode_empty)

text \<open>
  C10, as written, fails for a file that is given and empty: the sender writes the
  property \<open>file\<close> as the empty string, which the receiver's test \<open>if (file)\<close> takes for no
  file, so the registered file handler \<open>2\<close> is not called with the empty buffer.
\<close>

theorem respond_empty_file_counterexample:
  "dc_onmessage \<lparr>remoteAddress = 1, messageHandlers = [1], fileHandlers = [2], dc_sent = []\<rparr>
      (last (dc_sent (respond (new_DataStream 2) ''hi'' (Some [])))) = [OnMessage 1 ''hi'']
   \<and> OnFile 2 [] \<notin> set (dc_onmessage
        \<lparr>remoteAddress = 1, messageHandlers = [1], fileHandlers = [2], dc_sent = []\<rparr>
        (last (dc_sent (respond (new_DataStream 2) ''hi'' (Some [])))))"
  by (simp add: respond_def respond_payload_def dc_onmessage_def new_DataStream_def)

section \<open>Properties of the facade\<close>

subsection \<open>Construction with an empty directory\<close>

lemma constructor_v2_empty:
  "opt_peerPublicKeys opts = None \<or> opt_peerPublicKeys opts = Some [] \<Longrightarrow>
   constructor_v2 ice opts w = (Inl DirectoryRequired, w)"
  by (auto simp: constructor_v2_def)

lemma constructor_v2_nonempty:
  "constructor_v2 ice opts w = (Inr s, w') \<Longrightarrow> peerPublicKeys s \<noteq> []"
  by (auto simp: constructor_v2_def build_sdk_def Let_def split: option.splits if_splits)

lemma constructor_never_fails:
  "fst (constructor opts w) = Inr (build_sdk opts
      (case opt_peerPublicKeys opts of None \<Rightarrow> [] | Some m \<Rightarrow> m) [''stun:stun.l.google.com:19302''])
   \<and> listeners (snd (constructor opts w)) = listeners w @ [OnSignal None (opt_wallet_address opts)]"
  by (simp add: constructor_def Let_def startContractListeners_def build_sdk_def)

text \<open>
  C5, at the input that separates the two copies of the class: an options object whose
  \<open>peerPublicKeys\<close> is the empty map. The constructor of
  \<open>client/sdk/SignalServerSDK.js\<close> returns a facade whose directory is empty and
  registers the persistent relay listener; the constructor of the other copy, on the
  same input, throws the directory-required error and registers nothing.
\<close>

theorem constructor_empty_directory:
  "fst (constructor (alice_opts\<lparr>opt_peerPublicKeys := Some []\<rparr>) world0) =
     Inr (alice\<lparr>peerPublicKeys := []\<rparr>)
   \<and> listeners (snd (constructor (alice_opts\<lparr>opt_peerPublicKeys := Some []\<rparr>) world0)) =
     [OnSignal None 1]
   \<and> constructor_v2 ice (alice_opts\<lparr>opt_peerPublicKeys := Some []\<rparr>) world0 =
     (Inl DirectoryRequired, world0)"
  by (simp add: constructor_def constructor_v2_def Let_def startContractListeners_def
      build_sdk_def alice_def alice_opts_def world0_def)

subsection \<open>Offers that arrive while no request handler is registered\<close>

lemma on_SignalSent_no_handler:
  "helpCb s = None \<Longrightarrow> decrypt cd (privateKey (identity s)) (encryptedData ev) = Some t \<Longrightarrow>
   parse cd t = Some m \<Longrightarrow> on_SignalSent cd now s ev w = w"
  by (simp add: on_SignalSent_def)

lemma on_SignalSent_no_handler_calls:
  "helpCb s = None \<Longrightarrow>
   calls (on_SignalSent cd now s ev w) = calls w
   \<and> listeners (on_SignalSent cd now s ev w) = listeners w
   \<and> submitted (on_SignalSent cd now s ev w) = submitted w
   \<and> chain (on_SignalSent cd now s ev w) = chain w"
  by (simp add: on_SignalSent_def split: option.splits)

lemma on_SignalSent_calls_cong:
  "calls w1 = calls w2 \<Longrightarrow>
   calls (on_SignalSent cd now s ev w1) = calls (on_SignalSent cd now s ev w2)"
  by (simp add: on_SignalSent_def split: option.splits)

text \<open>
  C9. While no request handler is registered, the persistent listener leaves the world
  as it was on every relay event whose payload decrypts and parses, an offer addressed
  to self included: no \<open>RequestForHelp\<close> is made, no callback is called, nothing changes.
  Registering a handler later (\<open>onHelpRequest\<close>) only stores the callback: what the
  listener then does on a later event is what it would have done had the earlier event
  never arrived, so nothing was queued. And on any relay event at all (\<open>ev0\<close>: also one
  whose payload does not decrypt or parse, which leaves an unhandled rejection) no
  callback is called, then or after a later registration.
\<close>

theorem offer_without_handler_discarded:
  assumes "helpCb s = None"
    and "decrypt cd (privateKey (identity s)) (encryptedData ev) = Some t"
    and "parse cd t = Some m"
  shows "on_SignalSent cd now s ev w = w
       \<and> on_SignalSent cd now' (onHelpRequest s cb) ev' (on_SignalSent cd now s ev w) =
           on_SignalSent cd now' (onHelpRequest s cb) ev' w
       \<and> onHelpRequest s cb = s\<lparr>helpCb := Some cb\<rparr>
       \<and> calls (on_SignalSent cd now s ev0 w) = calls w
       \<and> calls (on_SignalSent cd now' (onHelpRequest s cb) ev' (on_SignalSent cd now s ev0 w)) =
           calls (on_SignalSent cd now' (onHelpRequest s cb) ev' w)"
proof -
  from on_SignalSent_no_handler [OF assms] have 1: "on_SignalSent cd now s ev w = w" .
  from on_SignalSent_no_handler_calls [OF assms(1), of cd now ev0 w]
  have 2: "calls (on_SignalSent cd now s ev0 w) = calls w" by simp
  from on_SignalSent_calls_cong [OF 2]
  have 3: "calls (on_SignalSent cd now' (onHelpRequest s cb) ev' (on_SignalSent cd now s ev0 w)) =
           calls (on_SignalSent cd now' (onHelpRequest s cb) ev' w)" .
  from 1 2 3 show ?thesis by (simp add: onHelpRequest_def)
qed

theorem offer_without_handler_discarded_witness:
  "helpCb bob = None
   \<and> decrypt demo_codec (privateKey (identity bob))
        (encryptedData \<lparr>sender = 1, recipient = 2, encryptedData = [1]\<rparr>) = Some ''offer''
   \<and> parse demo_codec ''offer'' = Some demo_offer
   \<and> on_SignalSent demo_codec 5 bob \<lparr>sender = 1, recipient = 2, encryptedData = [1]\<rparr> bob_world = bob_world
   \<and> calls (on_SignalSent demo_codec 9 (onHelpRequest bob 7)
        \<lparr>sender = 1, recipient = 2, encryptedData = [1]\<rparr>
        (on_SignalSent demo_codec 5 bob \<lparr>sender = 1, recipient = 2, encryptedData = [1]\<rparr> bob_world)) =
       [HelpCb 7 \<lparr>req_sender = 1, req_offer = demo_offer, req_timestamp = 9\<rparr>]"
proof -
  have h: "helpCb bob = None"
    by (simp add: bob_def build_sdk_def)
  have d: "decrypt demo_codec (privateKey (identity bob))
        (encryptedData \<lparr>sender = 1, recipient = 2, encryptedData = [1]\<rparr>) = Some ''offer''"
    by (simp add: demo_codec_def)
  have p: "parse demo_codec ''offer'' = Some demo_offer"
    by (simp add: demo_codec_def)
  have later: "calls (on_SignalSent demo_codec 9 (onHelpRequest bob 7)
        \<lparr>sender = 1, recipient = 2, encryptedData = [1]\<rparr> bob_world) =
       [HelpCb 7 \<lparr>req_sender = 1, req_offer = demo_offer, req_timestamp = 9\<rparr>]"
    by (simp add: on_SignalSent_def onHelpRequest_def demo_codec_def demo_offer_def
        bob_def build_sdk_def bob_world_def world0_def)
  show ?thesis
    using offer_without_handler_discarded [OF h d p, of 5 bob_world 9 7
        "\<lparr>sender = 1, recipient = 2, encryptedData = [1]\<rparr>"]
      h d p later
    by simp
qed

section \<open>Unfolding the model on concrete inputs\<close>

lemmas demo_defs = requestHelp_def requestHelp_start_def requestHelp_send_def run_def step_def
  emit_def deliver_def onAnswer_def on_SignalSent_def sdk_sendSignal_def send_json_def
  submit_tx_def sendSignal_def getPeerPubKey_def notifyStreamOpen_def
  demo_codec_def demo_engine_def demo_offer_def demo_answer_def
  alice_def alice_world_def world0_def build_sdk_def alice_opts_def
  new_RTCPeerConnection_def new_DataStream_def resolve_def reject_def outcome_def
  valid_reply_def no_valid_reply_def Let_def

section \<open>Properties of an outbound attempt\<close>

subsection \<open>What the delivery of a relay event can change\<close>

lemma on_SignalSent_keeps:
  "listeners (on_SignalSent cd now s ev w) = listeners w"
  "submitted (on_SignalSent cd now s ev w) = submitted w"
  "chain (on_SignalSent cd now s ev w) = chain w"
  by (simp_all add: on_SignalSent_def split: option.splits)

lemma addIceCandidates_keeps:
  "localDescription (snd (addIceCandidates eng p cs)) = localDescription p"
  "remoteDescription (snd (addIceCandidates eng p cs)) = remoteDescription p"
  by (induction cs arbitrary: p) simp_all

lemma onAnswer_keeps:
  "toAddr (fst (onAnswer cd eng s a ev)) = toAddr a"
  "offer (fst (onAnswer cd eng s a ev)) = offer a"
  "candidates (fst (onAnswer cd eng s a ev)) = candidates a"
  "p2pPromise (fst (onAnswer cd eng s a ev)) = p2pPromise a"
  "timer (fst (onAnswer cd eng s a ev)) = timer a"
  "phase (fst (onAnswer cd eng s a ev)) = phase a"
  by (simp_all add: onAnswer_def Let_def split: option.splits prod.splits)


lemma deliver_fst:
  "fst (deliver cd eng now s ev l (a, w)) =
     (case l of
        OnSignal f r \<Rightarrow> a
      | OnceAnswer f r \<Rightarrow>
          if f = Some (toAddr a) \<and> r = wallet_address s then fst (onAnswer cd eng s a ev) else a)"
  by (simp add: deliver_def split: listener.splits prod.splits option.splits)

lemma deliver_snd:
  "listeners (snd (deliver cd eng now s ev l (a, w))) = listeners w"
  "submitted (snd (deliver cd eng now s ev l (a, w))) = submitted w"
  "chain (snd (deliver cd eng now s ev l (a, w))) = chain w"
  by (simp_all add: deliver_def on_SignalSent_keeps split: listener.splits prod.splits option.splits)

lemma deliver_keeps:
  "toAddr (fst (deliver cd eng now s ev l st)) = toAddr (fst st)"
  "offer (fst (deliver cd eng now s ev l st)) = offer (fst st)"
  "candidates (fst (deliver cd eng now s ev l st)) = candidates (fst st)"
  "p2pPromise (fst (deliver cd eng now s ev l st)) = p2pPromise (fst st)"
  "timer (fst (deliver cd eng now s ev l st)) = timer (fst st)"
  "phase (fst (deliver cd eng now s ev l st)) = phase (fst st)"
  "listeners (snd (deliver cd eng now s ev l st)) = listeners (snd st)"
  "submitted (snd (deliver cd eng now s ev l st)) = submitted (snd st)"
  "chain (snd (deliver cd eng now s ev l st)) = chain (snd st)"
  by (cases st; cases l; simp add: deliver_fst deliver_snd onAnswer_keeps)+

lemma fold_deliver_keeps:
  "toAddr (fst (fold (deliver cd eng now s ev) ls st)) = toAddr (fst st)"
  "offer (fst (fold (deliver cd eng now s ev) ls st)) = offer (fst st)"
  "candidates (fst (fold (deliver cd eng now s ev) ls st)) = candidates (fst st)"
  "p2pPromise (fst (fold (deliver cd eng now s ev) ls st)) = p2pPromise (fst st)"
  "timer (fst (fold (deliver cd eng now s ev) ls st)) = timer (fst st)"
  "phase (fst (fold (deliver cd eng now s ev) ls st)) = phase (fst st)"
  "listeners (snd (fold (deliver cd eng now s ev) ls st)) = listeners (snd st)"
  "submitted (snd (fold (deliver cd eng now s ev) ls st)) = submitted (snd st)"
  "chain (snd (fold (deliver cd eng now s ev) ls st)) = chain (snd st)"
  by (induction ls arbitrary: st; simp add: deliver_keeps)+

lemma deliver_other:
  "l \<noteq> own_listener s (toAddr (fst st)) \<Longrightarrow> fst (deliver cd eng now s ev l st) = fst st"
  by (cases st; cases l) (auto simp: deliver_fst own_listener_def)

lemma fold_deliver_other:
  "own_listener s (toAddr (fst st)) \<notin> set ls \<Longrightarrow> fst (fold (deliver cd eng now s ev) ls st) = fst st"
proof (induction ls arbitrary: st)
  case Nil
  show ?case by simp
next
  case (Cons l ls)
  have 1: "fst (deliver cd eng now s ev l st) = fst st"
    using Cons.prems by (intro deliver_other) auto
  with Cons.prems have "own_listener s (toAddr (fst (deliver cd eng now s ev l st))) \<notin> set ls"
    by simp
  from Cons.IH [OF this] 1 show ?case by simp
qed



lemma emit_keeps:
  "toAddr (fst (emit cd eng now s ev st)) = toAddr (fst st)"
  "offer (fst (emit cd eng now s ev st)) = offer (fst st)"
  "candidates (fst (emit cd eng now s ev st)) = candidates (fst st)"
  "p2pPromise (fst (emit cd eng now s ev st)) = p2pPromise (fst st)"
  "timer (fst (emit cd eng now s ev st)) = timer (fst st)"
  "phase (fst (emit cd eng now s ev st)) = phase (fst st)"
  "submitted (snd (emit cd eng now s ev st)) = submitted (snd st)"
  "chain (snd (emit cd eng now s ev st)) = chain (snd st)"
  "listeners (snd (emit cd eng now s ev st)) =
     filter (\<lambda>l. \<not> (is_once l \<and> matches l ev)) (listeners (snd st))"
  by (cases st; simp add: emit_def Let_def fold_deliver_keeps)+


lemma emit_unsubscribed:
  "own_listener s (toAddr (fst st)) \<notin> set (listeners (snd st)) \<Longrightarrow> fst (emit cd eng now s ev st) = fst st"
  by (cases st) (simp add: emit_def Let_def fold_deliver_other)

subsection \<open>Attempts that no valid reply has reached\<close>

lemma submit_tx_submitted:
  "submitted (snd (submit_tx rpc_ok s to dat w)) = submitted w @ [(to, dat)]"
  "listeners (snd (submit_tx rpc_ok s to dat w)) = listeners w"
  "calls (snd (submit_tx rpc_ok s to dat w)) = calls w"
  by (simp_all add: submit_tx_def Let_def split: prod.splits sum.splits)

lemma send_json_cases:
  "(\<exists>dat. snd (send_json cd rpc_ok s to json w) = snd (submit_tx rpc_ok s to dat w)
         \<and> fst (send_json cd rpc_ok s to json w) = fst (submit_tx rpc_ok s to dat w)
         \<and> getPeerPubKey s to \<noteq> Inl (NoPublicKeyForPeer to))
   \<or> (snd (send_json cd rpc_ok s to json w) = w \<and> isl (fst (send_json cd rpc_ok s to json w)))"
  by (auto simp: send_json_def getPeerPubKey_def split: sum.splits option.splits if_splits)


lemma send_json_length:
  "length (submitted (snd (send_json cd rpc_ok s to json w))) \<le> Suc (length (submitted w))"
  "listeners (snd (send_json cd rpc_ok s to json w)) = listeners w"
  using send_json_cases [of cd rpc_ok s to json w]
  by (auto simp: submit_tx_submitted)

lemma requestHelp_send_None:
  "offer a = None \<Longrightarrow> requestHelp_send cd eng rpc_ok s (a, w) = (a\<lparr>phase := Threw EngineError\<rparr>, w)"
  by (simp add: requestHelp_send_def)

lemma requestHelp_send_Inl:
  "offer a = Some off \<Longrightarrow>
   fst (send_json cd rpc_ok s (toAddr a)
      (stringify cd \<lparr>mtype = dtype off, msdp = localSdp eng off, mcandidates = Some (candidates a)\<rparr>) w) = Inl e \<Longrightarrow>
   requestHelp_send cd eng rpc_ok s (a, w) =
     (a\<lparr>phase := Threw e\<rparr>,
      snd (send_json cd rpc_ok s (toAddr a)
      (stringify cd \<lparr>mtype = dtype off, msdp = localSdp eng off, mcandidates = Some (candidates a)\<rparr>) w))"
  by (auto simp: requestHelp_send_def sdk_sendSignal_def split: prod.splits sum.splits)

lemma requestHelp_send_Inr:
  "offer a = Some off \<Longrightarrow>
   fst (send_json cd rpc_ok s (toAddr a)
      (stringify cd \<lparr>mtype = dtype off, msdp = localSdp eng off, mcandidates = Some (candidates a)\<rparr>) w) = Inr u \<Longrightarrow>
   requestHelp_send cd eng rpc_ok s (a, w) =
     (a\<lparr>timer := True, phase := Returned\<rparr>,
      (snd (send_json cd rpc_ok s (toAddr a)
      (stringify cd \<lparr>mtype = dtype off, msdp = localSdp eng off, mcandidates = Some (candidates a)\<rparr>) w))
        \<lparr>listeners := listeners w @ [OnceAnswer (Some (toAddr a)) (wallet_address s)]\<rparr>)"
  using send_json_length(2) [of cd rpc_ok s "toAddr a"
      "stringify cd \<lparr>mtype = dtype off, msdp = localSdp eng off, mcandidates = Some (candidates a)\<rparr>" w]
  by (auto simp: requestHelp_send_def sdk_sendSignal_def split: prod.splits sum.splits)










lemma run_append:
  "run cd eng rpc_ok now s st (xs @ ys) = run cd eng rpc_ok now s (run cd eng rpc_ok now s st xs) ys"
  by (simp add: run_def)







subsection \<open>Timeout of an unanswered attempt\<close>




subsection \<open>Replies that come after the timeout\<close>

lemma count_list_filter_le: "count_list (filter P xs) x \<le> count_list xs x"
  by (induction xs) simp_all

lemma count_list_remove1_le: "count_list (remove1 y xs) x \<le> count_list xs x"
  by (induction xs) simp_all

lemma remove1_last_occurrence: "count_list xs x \<le> 1 \<Longrightarrow> x \<notin> set (remove1 x xs)"
proof (induction xs)
  case Nil
  show ?case by simp
next
  case (Cons y ys)
  show ?case
  proof (cases "y = x")
    case True
    with Cons.prems have "count_list ys x = 0" by simp
    with True show ?thesis by (simp add: count_list_0_iff)
  next
    case False
    with Cons show ?thesis by simp
  qed
qed

lemma requestHelp_send_well_subscribed:
  assumes "well_subscribed s to st" "phase (fst st) = Gathering"
  shows "well_subscribed s to (requestHelp_send cd eng rpc_ok s st)"
proof (cases st)
  case (Pair a w)
  with assms have own: "own_listener s to \<notin> set (listeners w)" and nt: "\<not> timer a" and ta: "toAddr a = to"
    by (simp_all add: well_subscribed_def)
  then have c0: "count_list (listeners w) (own_listener s to) = 0" by (simp add: count_list_0_iff)
  show ?thesis
  proof (cases "offer a")
    case None
    with Pair assms show ?thesis
      by (simp add: requestHelp_send_None well_subscribed_def)
  next
    case (Some off)
    let ?r = "send_json cd rpc_ok s (toAddr a)
        (stringify cd \<lparr>mtype = dtype off, msdp = localSdp eng off, mcandidates = Some (candidates a)\<rparr>) w"
    show ?thesis
    proof (cases "fst ?r")
      case (Inl e)
      from requestHelp_send_Inl [OF Some Inl] Pair own nt ta c0 show ?thesis
        by (simp add: well_subscribed_def send_json_length)
    next
      case (Inr u)
      from requestHelp_send_Inr [OF Some Inr] Pair own nt ta c0 show ?thesis
        by (simp add: well_subscribed_def own_listener_def)
    qed
  qed
qed

lemma requestHelp_start_well_subscribed:
  assumes "own_listener s to \<notin> set (listeners w)"
  shows "well_subscribed s to (requestHelp_start cd eng rpc_ok s to w)"
proof (cases "createOffer eng")
  case None
  with assms show ?thesis
    by (simp add: requestHelp_start_def well_subscribed_def count_list_0_iff)
next
  case (Some off)
  show ?thesis
  proof (cases "setLocalDescription eng off")
    case False
    with Some assms show ?thesis
      by (simp add: requestHelp_start_def well_subscribed_def count_list_0_iff)
  next
    case True
    let ?a1 = "\<lparr>toAddr = to, pc = new_RTCPeerConnection\<lparr>localDescription := Some off\<rparr>,
                offer = Some off, candidates = earlyCandidates eng,
                p2pPromise = Pending, timer = False, phase = Gathering\<rparr>"
    have u: "well_subscribed s to (?a1, w)"
      using assms by (simp add: well_subscribed_def count_list_0_iff)
    show ?thesis
    proof (cases "gatheringComplete eng")
      case False
      with Some True u show ?thesis by (simp add: requestHelp_start_def Let_def)
    next
      case g: True
      from requestHelp_send_well_subscribed [OF u, of cd eng rpc_ok] Some True g show ?thesis
        by (simp add: requestHelp_start_def Let_def)
    qed
  qed
qed

lemma step_well_subscribed:
  assumes "well_subscribed s to st"
  shows "well_subscribed s to (step cd eng rpc_ok now s st e)"
proof (cases e)
  case (IceCandidate co)
  with assms show ?thesis
    by (cases st) (auto simp: step_def well_subscribed_def split: option.splits)
next
  case IceGatheringComplete
  show ?thesis
  proof (cases "phase (fst st) = Gathering")
    case True
    with requestHelp_send_well_subscribed [OF assms True] IceGatheringComplete show ?thesis
      by (cases st) (simp add: step_def)
  next
    case False
    with assms IceGatheringComplete show ?thesis by (cases st) (simp add: step_def)
  qed
next
  case (Relay ev)
  have "count_list (filter (\<lambda>l. \<not> (is_once l \<and> matches l ev)) (listeners (snd st))) (own_listener s to)
          \<le> count_list (listeners (snd st)) (own_listener s to)"
    by (rule count_list_filter_le)
  with assms Relay show ?thesis
    by (cases st) (auto simp: step_def well_subscribed_def emit_keeps split: if_splits)
next
  case TimerFired
  have "count_list (remove1 (own_listener s to) (listeners (snd st))) (own_listener s to)
          \<le> count_list (listeners (snd st)) (own_listener s to)"
    by (rule count_list_remove1_le)
  moreover have "set (remove1 (own_listener s to) (listeners (snd st))) \<subseteq> set (listeners (snd st))"
    by (rule set_remove1_subset)
  ultimately show ?thesis
    using assms TimerFired
    by (cases st) (auto simp: step_def well_subscribed_def own_listener_def split: if_splits)
next
  case ChannelOpen
  with assms show ?thesis
    by (cases st) (auto simp: step_def well_subscribed_def notifyStreamOpen_def split: option.splits if_splits)
qed

lemma run_well_subscribed:
  "well_subscribed s to st \<Longrightarrow> well_subscribed s to (run cd eng rpc_ok now s st es)"
  unfolding run_def by (induction es arbitrary: st) (simp_all add: step_well_subscribed)

lemma timer_fires_expired:
  assumes "well_subscribed s to st" "timer (fst st)" "p2pPromise (fst st) = Pending"
  shows "expired s to (step cd eng rpc_ok now s st TimerFired)"
proof -
  from assms have "phase (fst st) = Returned" by (auto simp: well_subscribed_def split: if_splits)
  moreover from assms have "own_listener s to \<notin> set (remove1 (own_listener s to) (listeners (snd st)))"
    by (intro remove1_last_occurrence) (simp add: well_subscribed_def)
  ultimately show ?thesis
    using assms by (cases st) (auto simp: step_def expired_def well_subscribed_def reject_def own_listener_def)
qed

lemma step_expired:
  assumes "expired s to st"
  shows "expired s to (step cd eng rpc_ok now s st e) \<and> pc (fst (step cd eng rpc_ok now s st e)) = pc (fst st)"
proof (cases e)
  case (Relay ev)
  from assms have "own_listener s (toAddr (fst st)) \<notin> set (listeners (snd st))"
    by (simp add: expired_def)
  from emit_unsubscribed [OF this] have "fst (emit cd eng now s ev st) = fst st" .
  with assms Relay show ?thesis
    by (cases st) (auto simp: step_def expired_def emit_keeps)
qed (use assms in \<open>cases st; auto simp: step_def expired_def resolve_def notifyStreamOpen_def split: option.splits\<close>)+

lemma run_expired:
  "expired s to st \<Longrightarrow>
   expired s to (run cd eng rpc_ok now s st es) \<and> pc (fst (run cd eng rpc_ok now s st es)) = pc (fst st)"
proof (induction es arbitrary: st)
  case Nil
  then show ?case by (simp add: run_def)
next
  case (Cons e es)
  from step_expired [OF Cons.prems, of cd eng rpc_ok now e]
  have 1: "expired s to (step cd eng rpc_ok now s st e)"
    and 2: "pc (fst (step cd eng rpc_ok now s st e)) = pc (fst st)" by simp_all
  from Cons.IH [OF 1] 2 show ?case by (simp add: run_def)
qed

lemma outcome_expired: "expired s to st \<Longrightarrow> outcome (fst st) = Rejected HelpResponseTimeout"
  by (simp add: expired_def outcome_def)


text \<open>
  C3. Take an attempt towards \<open>to\<close>, begun when no other one-shot listener for the same
  pair of addresses was registered, and the events \<open>es1\<close> after which its timer is
  running and its promise is still pending. When the timer then fires, the one-shot
  reply listener is out of the contract's listener table and the caller's promise is
  rejected with \<open>HelpResponseTimeout\<close>; and whatever is delivered afterwards (\<open>es2\<close>: valid
  replies, the opening of the channel, anything), the promise stays rejected with that
  error, the peer connection is never written again, and the listener stays out.
\<close>

theorem late_reply_discarded:
  assumes "own_listener s to \<notin> set (listeners w)"
    and "timer (fst (requestHelp cd eng rpc_ok now s to w es1))"
    and "p2pPromise (fst (requestHelp cd eng rpc_ok now s to w es1)) = Pending"
  shows "own_listener s to \<notin> set (listeners (snd (requestHelp cd eng rpc_ok now s to w (es1 @ [TimerFired]))))
       \<and> outcome (fst (requestHelp cd eng rpc_ok now s to w (es1 @ [TimerFired]))) =
           Rejected HelpResponseTimeout
       \<and> outcome (fst (requestHelp cd eng rpc_ok now s to w (es1 @ TimerFired # es2))) =
           Rejected HelpResponseTimeout
       \<and> pc (fst (requestHelp cd eng rpc_ok now s to w (es1 @ TimerFired # es2))) =
           pc (fst (requestHelp cd eng rpc_ok now s to w es1))
       \<and> own_listener s to \<notin>
           set (listeners (snd (requestHelp cd eng rpc_ok now s to w (es1 @ TimerFired # es2))))"
proof -
  let ?st1 = "requestHelp cd eng rpc_ok now s to w es1"
  let ?st2 = "step cd eng rpc_ok now s ?st1 TimerFired"
  have ws: "well_subscribed s to ?st1"
    unfolding requestHelp_def
    by (rule run_well_subscribed) (rule requestHelp_start_well_subscribed [OF assms(1)])
  from timer_fires_expired [OF ws assms(2) assms(3)] have x2: "expired s to ?st2" .
  have e2: "requestHelp cd eng rpc_ok now s to w (es1 @ [TimerFired]) = ?st2"
    by (simp add: requestHelp_def run_def)
  have e3: "requestHelp cd eng rpc_ok now s to w (es1 @ TimerFired # es2) = run cd eng rpc_ok now s ?st2 es2"
    by (simp add: requestHelp_def run_def)
  have p2: "pc (fst ?st2) = pc (fst ?st1)"
    using assms(2) by (cases ?st1) (simp add: step_def)
  from run_expired [OF x2, of cd eng rpc_ok now es2]
  have x3: "expired s to (run cd eng rpc_ok now s ?st2 es2)"
    and p3: "pc (fst (run cd eng rpc_ok now s ?st2 es2)) = pc (fst ?st2)" by simp_all
  from x2 x3 p2 p3 outcome_expired [OF x2] outcome_expired [OF x3] show ?thesis
    unfolding e2 e3 by (simp add: expired_def)
qed

theorem late_reply_discarded_witness:
  "own_listener alice 2 \<notin> set (listeners alice_world)
   \<and> timer (fst (requestHelp demo_codec demo_engine True 0 alice 2 alice_world [IceGatheringComplete]))
   \<and> p2pPromise (fst (requestHelp demo_codec demo_engine True 0 alice 2 alice_world
        [IceGatheringComplete])) = Pending
   \<and> own_listener alice 2 \<notin> set (listeners (snd (requestHelp demo_codec demo_engine True 0 alice 2
        alice_world ([IceGatheringComplete] @ [TimerFired]))))
   \<and> outcome (fst (requestHelp demo_codec demo_engine True 0 alice 2 alice_world
        ([IceGatheringComplete] @ [TimerFired]))) = Rejected HelpResponseTimeout
   \<and> outcome (fst (requestHelp demo_codec demo_engine True 0 alice 2 alice_world
        ([IceGatheringComplete] @ TimerFired #
         [Relay \<lparr>sender = 2, recipient = 1, encryptedData = [2]\<rparr>, ChannelOpen]))) =
       Rejected HelpResponseTimeout
   \<and> pc (fst (requestHelp demo_codec demo_engine True 0 alice 2 alice_world
        ([IceGatheringComplete] @ TimerFired #
         [Relay \<lparr>sender = 2, recipient = 1, encryptedData = [2]\<rparr>, ChannelOpen]))) =
       pc (fst (requestHelp demo_codec demo_engine True 0 alice 2 alice_world [IceGatheringComplete]))
   \<and> own_listener alice 2 \<notin> set (listeners (snd (requestHelp demo_codec demo_engine True 0 alice 2
        alice_world ([IceGatheringComplete] @ TimerFired #
         [Relay \<lparr>sender = 2, recipient = 1, encryptedData = [2]\<rparr>, ChannelOpen]))))"
proof -
  have h1: "own_listener alice 2 \<notin> set (listeners alice_world)"
    by (simp add: own_listener_def alice_world_def world0_def)
  have h2: "timer (fst (requestHelp demo_codec demo_engine True 0 alice 2 alice_world
      [IceGatheringComplete]))"
    by (simp add: demo_defs)
  have h3: "p2pPromise (fst (requestHelp demo_codec demo_engine True 0 alice 2 alice_world
      [IceGatheringComplete])) = Pending"
    by (simp add: demo_defs)
  from late_reply_discarded [OF h1 h2 h3,
      of "[Relay \<lparr>sender = 2, recipient = 1, encryptedData = [2]\<rparr>, ChannelOpen]"] h1 h2 h3
  show ?thesis by blast
qed

subsection \<open>A first correlated event that is not a valid reply\<close>

text \<open>
  C2, evaluated. Alice has sent her offer to Bob and waits. A relay event from Bob to
  Alice arrives whose payload is an offer and not an answer (\<open>[1]\<close>), or decrypts to text
  that is not JSON (\<open>[3]\<close>), or does not decrypt at all (\<open>[9]\<close>); then Bob's valid answer
  (\<open>[2]\<close>) arrives, before the timer. In each case the first event has used up the
  one-shot listener: the listener is no longer in the table when the answer arrives and
  the answer is never applied to the peer connection. After the offer, which no listener
  throws on, the attempt ends in \<open>HelpResponseTimeout\<close>; on the two payloads that do not
  decrypt or parse both listeners throw, and the unhandled rejections end the process.
  Had the valid answer come first, it would have been applied.
\<close>

theorem invalid_reply_consumes_subscription:
  "own_listener alice 2 \<notin> set (listeners (snd (requestHelp demo_codec demo_engine True 0 alice 2
      alice_world [IceGatheringComplete, Relay \<lparr>sender = 2, recipient = 1, encryptedData = [3]\<rparr>])))
   \<and> own_listener alice 2 \<notin> set (listeners (snd (requestHelp demo_codec demo_engine True 0 alice 2
      alice_world [IceGatheringComplete, Relay \<lparr>sender = 2, recipient = 1, encryptedData = [1]\<rparr>])))
   \<and> remoteDescription (pc (fst (requestHelp demo_codec demo_engine True 0 alice 2 alice_world
        [IceGatheringComplete, Relay \<lparr>sender = 2, recipient = 1, encryptedData = [3]\<rparr>,
         Relay \<lparr>sender = 2, recipient = 1, encryptedData = [2]\<rparr>]))) = None
   \<and> remoteDescription (pc (fst (requestHelp demo_codec demo_engine True 0 alice 2 alice_world
        [IceGatheringComplete, Relay \<lparr>sender = 2, recipient = 1, encryptedData = [9]\<rparr>,
         Relay \<lparr>sender = 2, recipient = 1, encryptedData = [2]\<rparr>]))) = None
   \<and> remoteDescription (pc (fst (requestHelp demo_codec demo_engine True 0 alice 2 alice_world
        [IceGatheringComplete, Relay \<lparr>sender = 2, recipient = 1, encryptedData = [1]\<rparr>,
         Relay \<lparr>sender = 2, recipient = 1, encryptedData = [2]\<rparr>]))) = None
   \<and> unhandled (snd (requestHelp demo_codec demo_engine True 0 alice 2 alice_world
        [IceGatheringComplete, Relay \<lparr>sender = 2, recipient = 1, encryptedData = [1]\<rparr>,
         Relay \<lparr>sender = 2, recipient = 1, encryptedData = [2]\<rparr>, TimerFired])) = []
   \<and> outcome (fst (requestHelp demo_codec demo_engine True 0 alice 2 alice_world
        [IceGatheringComplete, Relay \<lparr>sender = 2, recipient = 1, encryptedData = [1]\<rparr>,
         Relay \<lparr>sender = 2, recipient = 1, encryptedData = [2]\<rparr>, TimerFired])) =
       Rejected HelpResponseTimeout
   \<and> unhandled (snd (requestHelp demo_codec demo_engine True 0 alice 2 alice_world
        [IceGatheringComplete, Relay \<lparr>sender = 2, recipient = 1, encryptedData = [3]\<rparr>])) =
       [ParseError, ParseError]
   \<and> unhandled (snd (requestHelp demo_codec demo_engine True 0 alice 2 alice_world
        [IceGatheringComplete, Relay \<lparr>sender = 2, recipient = 1, encryptedData = [9]\<rparr>])) =
       [DecryptError, DecryptError]
   \<and> remoteDescription (pc (fst (requestHelp demo_codec demo_engine True 0 alice 2 alice_world
        [IceGatheringComplete, Relay \<lparr>sender = 2, recipient = 1, encryptedData = [2]\<rparr>]))) =
       Some \<lparr>dtype = ''answer'', dsdp = ''a''\<rparr>"
  by (simp add: demo_defs own_listener_def)

subsection \<open>An attempt towards an address that is not in the directory\<close>

lemma send_json_unknown:
  "map_of (peerPublicKeys s) to = None \<Longrightarrow>
   send_json cd rpc_ok s to json w = (Inl (NoPublicKeyForPeer to), w)"
  by (simp add: send_json_def getPeerPubKey_def)

lemma requestHelp_send_unknown:
  assumes "map_of (peerPublicKeys s) (toAddr a) = None" "offer a = Some off"
  shows "requestHelp_send cd eng rpc_ok s (a, w) = (a\<lparr>phase := Threw (NoPublicKeyForPeer (toAddr a))\<rparr>, w)"
  using assms by (simp add: requestHelp_send_def sdk_sendSignal_def send_json_unknown)

lemma step_unknown:
  assumes "map_of (peerPublicKeys s) to = None"
    and "toAddr (fst st) = to" "\<not> timer (fst st)" "offer (fst st) \<noteq> None"
    and "phase (fst st) = Gathering \<or> phase (fst st) = Threw (NoPublicKeyForPeer to)"
  shows "toAddr (fst (step cd eng rpc_ok now s st e)) = to
       \<and> \<not> timer (fst (step cd eng rpc_ok now s st e))
       \<and> offer (fst (step cd eng rpc_ok now s st e)) \<noteq> None
       \<and> submitted (snd (step cd eng rpc_ok now s st e)) = submitted (snd st)
       \<and> chain (snd (step cd eng rpc_ok now s st e)) = chain (snd st)
       \<and> set (listeners (snd (step cd eng rpc_ok now s st e))) \<subseteq> set (listeners (snd st))
       \<and> phase (fst (step cd eng rpc_ok now s st e)) =
           (if e = IceGatheringComplete then Threw (NoPublicKeyForPeer to) else phase (fst st))"
proof (cases e)
  case IceGatheringComplete
  from assms obtain off where off: "offer (fst st) = Some off" by auto
  with assms IceGatheringComplete show ?thesis
    by (cases st) (auto simp: step_def requestHelp_send_unknown)
next
  case (Relay ev)
  with assms show ?thesis
    by (cases st) (auto simp: step_def emit_keeps)
qed (use assms in \<open>cases st; auto simp: step_def notifyStreamOpen_def split: option.splits\<close>)+

lemma run_unknown:
  assumes "map_of (peerPublicKeys s) to = None"
    and "toAddr (fst st) = to" "\<not> timer (fst st)" "offer (fst st) \<noteq> None"
    and "phase (fst st) = Gathering \<or> phase (fst st) = Threw (NoPublicKeyForPeer to)"
  shows "\<not> timer (fst (run cd eng rpc_ok now s st es))
       \<and> submitted (snd (run cd eng rpc_ok now s st es)) = submitted (snd st)
       \<and> chain (snd (run cd eng rpc_ok now s st es)) = chain (snd st)
       \<and> set (listeners (snd (run cd eng rpc_ok now s st es))) \<subseteq> set (listeners (snd st))
       \<and> phase (fst (run cd eng rpc_ok now s st es)) =
           (if IceGatheringComplete \<in> set es then Threw (NoPublicKeyForPeer to) else phase (fst st))"
  using assms(2-)
proof (induction es arbitrary: st)
  case Nil
  then show ?case by (simp add: run_def)
next
  case (Cons e es)
  let ?st' = "step cd eng rpc_ok now s st e"
  note s1 = step_unknown [OF assms(1) Cons.prems, of cd eng rpc_ok now e]
  from s1 have a: "toAddr (fst ?st') = to" and b: "\<not> timer (fst ?st')" and c: "offer (fst ?st') \<noteq> None"
    by simp_all
  from s1 Cons.prems(4)
  have d: "phase (fst ?st') = Gathering \<or> phase (fst ?st') = Threw (NoPublicKeyForPeer to)"
    by (auto split: if_splits)
  from Cons.IH [OF a b c d] s1 Cons.prems(4) show ?case
    by (auto simp: run_def split: if_splits)
qed

lemma run_threw:
  "phase (fst st) = Threw e \<Longrightarrow> \<not> timer (fst st) \<Longrightarrow>
   phase (fst (run cd eng rpc_ok now s st es)) = Threw e
   \<and> \<not> timer (fst (run cd eng rpc_ok now s st es))
   \<and> submitted (snd (run cd eng rpc_ok now s st es)) = submitted (snd st)
   \<and> chain (snd (run cd eng rpc_ok now s st es)) = chain (snd st)
   \<and> set (listeners (snd (run cd eng rpc_ok now s st es))) \<subseteq> set (listeners (snd st))"
proof (induction es arbitrary: st)
  case Nil
  then show ?case by (simp add: run_def)
next
  case (Cons x es)
  let ?st' = "step cd eng rpc_ok now s st x"
  have s1: "phase (fst ?st') = Threw e \<and> \<not> timer (fst ?st')
      \<and> submitted (snd ?st') = submitted (snd st) \<and> chain (snd ?st') = chain (snd st)
      \<and> set (listeners (snd ?st')) \<subseteq> set (listeners (snd st))"
    using Cons.prems
    by (cases st; cases x) (auto simp: step_def emit_keeps notifyStreamOpen_def split: option.splits)
  then have "phase (fst ?st') = Threw e" "\<not> timer (fst ?st')" by simp_all
  from Cons.IH [OF this] s1 show ?case by (auto simp: run_def)
qed


text \<open>
  C6, as the code has it. For an address \<open>to\<close> with no entry in the directory, a call
  of \<open>requestHelp\<close> followed by any events never issues a \<open>sendSignal\<close> transaction,
  leaves the relay's log as it was, registers no listener and starts no timer. The key
  is looked up only inside \<open>_sendSignal\<close>, which the body reaches after the offer has
  been created and set and the gathering of candidates has completed: from that moment on
  the caller's promise is rejected with the unknown-peer error; before it the promise is
  pending, and if the engine refuses the offer it is rejected with the engine's error.
\<close>

theorem unknown_peer_no_submission:
  assumes "map_of (peerPublicKeys s) to = None"
  shows "submitted (snd (requestHelp cd eng rpc_ok now s to w es)) = submitted w
       \<and> chain (snd (requestHelp cd eng rpc_ok now s to w es)) = chain w
       \<and> set (listeners (snd (requestHelp cd eng rpc_ok now s to w es))) \<subseteq> set (listeners w)
       \<and> \<not> timer (fst (requestHelp cd eng rpc_ok now s to w es))
       \<and> outcome (fst (requestHelp cd eng rpc_ok now s to w es)) =
           (case createOffer eng of
              None \<Rightarrow> Rejected EngineError
            | Some off \<Rightarrow>
                if \<not> setLocalDescription eng off then Rejected EngineError
                else if gatheringComplete eng \<or> IceGatheringComplete \<in> set es
                then Rejected (NoPublicKeyForPeer to)
                else Pending)"
proof (cases "createOffer eng")
  case None
  then have st0: "requestHelp_start cd eng rpc_ok s to w =
      (\<lparr>toAddr = to, pc = new_RTCPeerConnection, offer = None, candidates = [],
         p2pPromise = Pending, timer = False, phase = Threw EngineError\<rparr>, w)"
    by (simp add: requestHelp_start_def)
  from run_threw [of "requestHelp_start cd eng rpc_ok s to w" EngineError cd eng rpc_ok now s es] None
  show ?thesis by (simp add: requestHelp_def st0 outcome_def)
next
  case (Some off)
  show ?thesis
  proof (cases "setLocalDescription eng off")
    case False
    with Some have st0: "requestHelp_start cd eng rpc_ok s to w =
      (\<lparr>toAddr = to, pc = new_RTCPeerConnection, offer = None, candidates = [],
         p2pPromise = Pending, timer = False, phase = Threw EngineError\<rparr>, w)"
      by (simp add: requestHelp_start_def)
    from run_threw [of "requestHelp_start cd eng rpc_ok s to w" EngineError cd eng rpc_ok now s es]
      Some False
    show ?thesis by (simp add: requestHelp_def st0 outcome_def)
  next
    case True
    let ?a1 = "\<lparr>toAddr = to, pc = new_RTCPeerConnection\<lparr>localDescription := Some off\<rparr>,
                offer = Some off, candidates = earlyCandidates eng,
                p2pPromise = Pending, timer = False, phase = Gathering\<rparr>"
    let ?st0 = "requestHelp_start cd eng rpc_ok s to w"
    have st0: "?st0 = (if gatheringComplete eng
                      then (?a1\<lparr>phase := Threw (NoPublicKeyForPeer to)\<rparr>, w) else (?a1, w))"
      using Some True assms by (simp add: requestHelp_start_def Let_def requestHelp_send_unknown)
    then have pre: "toAddr (fst ?st0) = to" "\<not> timer (fst ?st0)" "offer (fst ?st0) \<noteq> None"
      "phase (fst ?st0) = Gathering \<or> phase (fst ?st0) = Threw (NoPublicKeyForPeer to)"
      "snd ?st0 = w"
      "phase (fst ?st0) = (if gatheringComplete eng then Threw (NoPublicKeyForPeer to) else Gathering)"
      by (simp_all split: if_splits)
    from run_unknown [OF assms pre(1-4), of cd eng rpc_ok now es] pre(5,6) Some True
    show ?thesis by (auto simp: requestHelp_def outcome_def)
  qed
qed

theorem unknown_peer_no_submission_witness:
  "map_of (peerPublicKeys alice) 3 = None
   \<and> submitted (snd (requestHelp demo_codec demo_engine True 0 alice 3 alice_world
        [IceCandidate (Some ''c0''), IceGatheringComplete])) = submitted alice_world
   \<and> chain (snd (requestHelp demo_codec demo_engine True 0 alice 3 alice_world
        [IceCandidate (Some ''c0''), IceGatheringComplete])) = chain alice_world
   \<and> \<not> timer (fst (requestHelp demo_codec demo_engine True 0 alice 3 alice_world
        [IceCandidate (Some ''c0''), IceGatheringComplete]))
   \<and> outcome (fst (requestHelp demo_codec demo_engine True 0 alice 3 alice_world
        [IceCandidate (Some ''c0''), IceGatheringComplete])) = Rejected (NoPublicKeyForPeer 3)"
proof -
  have h: "map_of (peerPublicKeys alice) 3 = None"
    by (simp add: alice_def build_sdk_def)
  from unknown_peer_no_submission [OF h, of demo_codec demo_engine True 0 alice_world
      "[IceCandidate (Some ''c0''), IceGatheringComplete]"] h
  show ?thesis by (simp add: demo_engine_def)
qed

text \<open>
  C6, as written, fails on "immediately": the address \<open>3\<close> is not in Alice's directory,
  yet after the call, and still after a candidate and a tick of the timer, the promise of
  \<open>requestHelp(3)\<close> is pending, because the engine has not yet reported the end of the
  gathering. With an engine that refuses to create the offer the promise is rejected, but
  with the engine's error and not with the unknown-peer error.
\<close>

theorem unknown_peer_not_immediate_counterexample:
  "map_of (peerPublicKeys alice) 3 = None
   \<and> outcome (fst (requestHelp demo_codec demo_engine True 0 alice 3 alice_world [])) = Pending
   \<and> outcome (fst (requestHelp demo_codec demo_engine True 0 alice 3 alice_world
        [IceCandidate (Some ''c0''), TimerFired])) = Pending
   \<and> outcome (fst (requestHelp demo_codec (demo_engine\<lparr>createOffer := None\<rparr>) True 0 alice 3
        alice_world [IceGatheringComplete])) = Rejected EngineError"
  by (simp add: demo_defs)

section \<open>Properties of an accepted inbound attempt\<close>






















section \<open>Properties of concurrent sends\<close>

subsection \<open>The send queue keeps the calls in order\<close>

lemma length_skip_from: "length (skip_from j ts) = length ts"
  by (simp add: skip_from_def)

lemma nth_skip_from:
  "k < length ts \<Longrightarrow> skip_from j ts ! k = (if j \<le> k \<and> ts ! k = Waiting then Skipped else ts ! k)"
  by (simp add: skip_from_def)

lemma serialized_sender0: "serialized sender0"
  by (simp add: serialized_def sender0_def)

lemma serialized_cong:
  assumes "serialized st"
    and len: "length ts = length (tasks st)"
    and dn: "\<And>k. k < length ts \<Longrightarrow> (ts ! k = Done) = (tasks st ! k = Done)"
    and st: "\<And>k. k < length ts \<Longrightarrow> started (ts ! k) \<Longrightarrow> started (tasks st ! k)"
    and ho: "\<And>k. k < length ts \<Longrightarrow> handed_over (tasks st ! k) \<Longrightarrow> handed_over (ts ! k)"
  shows "serialized (st\<lparr>tasks := ts\<rparr>)"
proof -
  from assms(1) have a: "length (requested st) = length (tasks st)"
    and b: "\<And>i j. j < length (tasks st) \<Longrightarrow> started (tasks st ! j) \<Longrightarrow> i < j \<Longrightarrow> tasks st ! i = Done"
    and c: "sorted_wrt (<) (begun st)"
    and d: "\<And>j. j \<in> set (begun st) \<Longrightarrow> j < length (tasks st) \<and> handed_over (tasks st ! j)"
    unfolding serialized_def by blast+
  have b': "\<And>i j. j < length ts \<Longrightarrow> started (ts ! j) \<Longrightarrow> i < j \<Longrightarrow> ts ! i = Done"
  proof -
    fix i j assume j: "j < length ts" and s: "started (ts ! j)" and i: "i < j"
    from st [OF j s] j len have "tasks st ! i = Done" using b [of j i] i by simp
    moreover from i j have "i < length ts" by simp
    ultimately show "ts ! i = Done" using dn by simp
  qed
  have d': "\<And>j. j \<in> set (begun st) \<Longrightarrow> j < length ts \<and> handed_over (ts ! j)"
    using d ho len by simp
  from a len b' c d' show ?thesis
    unfolding serialized_def by simp
qed

lemma serialized_skip_from:
  assumes "serialized st"
  shows "serialized (st\<lparr>tasks := skip_from j (tasks st)\<rparr>)"
proof (rule serialized_cong [OF assms])
  show "length (skip_from j (tasks st)) = length (tasks st)" by (rule length_skip_from)
next
  fix k assume "k < length (skip_from j (tasks st))"
  then have k: "k < length (tasks st)" by (simp add: length_skip_from)
  show "(skip_from j (tasks st) ! k = Done) = (tasks st ! k = Done)"
    using k by (simp add: nth_skip_from)
  show "started (skip_from j (tasks st) ! k) \<Longrightarrow> started (tasks st ! k)"
    using k by (simp add: nth_skip_from split: if_splits)
  show "handed_over (tasks st ! k) \<Longrightarrow> handed_over (skip_from j (tasks st) ! k)"
    using k by (auto simp: nth_skip_from)
qed

lemma advance_idle: "\<not> (p = Encrypting \<or> p = Transmitting \<or> p = Confirming) \<Longrightarrow> advance p ok = p"
  by (cases p) simp_all

lemma advance_active:
  "p = Encrypting \<or> p = Transmitting \<or> p = Confirming \<Longrightarrow>
   started (advance p ok) \<and> (handed_over p \<longrightarrow> handed_over (advance p ok))
   \<and> (p = Encrypting \<and> ok \<longrightarrow> handed_over (advance p ok))"
  by (cases p) auto


lemma serialized_enqueue:
  assumes "serialized st"
  shows "serialized (enqueue s c st)"
proof -
  let ?n = "length (tasks st)"
  let ?p = "if tasks st = [] \<or> last (tasks st) = Done then start_call s c
            else if last (tasks st) = Failed \<or> last (tasks st) = Skipped then Skipped
            else Waiting"
  from assms have a: "length (requested st) = ?n"
    and b: "\<And>i j. j < ?n \<Longrightarrow> started (tasks st ! j) \<Longrightarrow> i < j \<Longrightarrow> tasks st ! i = Done"
    and c: "sorted_wrt (<) (begun st)"
    and d: "\<And>j. j \<in> set (begun st) \<Longrightarrow> j < ?n \<and> handed_over (tasks st ! j)"
    unfolding serialized_def by blast+
  have all_done: "\<And>i. started ?p \<Longrightarrow> i < ?n \<Longrightarrow> tasks st ! i = Done"
  proof -
    fix i assume sp: "started ?p" and i: "i < ?n"
    then have ne: "tasks st \<noteq> []" by auto
    with sp have l: "last (tasks st) = Done" by (auto split: if_splits)
    with ne have ld: "tasks st ! (?n - 1) = Done" by (simp add: last_conv_nth)
    show "tasks st ! i = Done"
    proof (cases "i = ?n - 1")
      case True
      with ld show ?thesis by simp
    next
      case False
      with i have "i < ?n - 1" by simp
      moreover from ne have "?n - 1 < ?n" by simp
      ultimately show ?thesis using b [of "?n - 1" i] ld by simp
    qed
  qed
  have b': "\<And>i j. j < length (tasks st @ [?p]) \<Longrightarrow> started ((tasks st @ [?p]) ! j) \<Longrightarrow> i < j
            \<Longrightarrow> (tasks st @ [?p]) ! i = Done"
  proof -
    fix i j assume j: "j < length (tasks st @ [?p])" and sj: "started ((tasks st @ [?p]) ! j)" and i: "i < j"
    show "(tasks st @ [?p]) ! i = Done"
    proof (cases "j < ?n")
      case True
      with sj have "started (tasks st ! j)" by (simp add: nth_append)
      from b [OF True this i] i True show ?thesis by (simp add: nth_append)
    next
      case False
      with j have jn: "j = ?n" by simp
      with sj have "started ?p" by (simp add: nth_append)
      from all_done [OF this] i jn show ?thesis by (simp add: nth_append)
    qed
  qed
  have d': "\<And>j. j \<in> set (begun st) \<Longrightarrow> j < length (tasks st @ [?p]) \<and> handed_over ((tasks st @ [?p]) ! j)"
    using d by (simp add: nth_append less_Suc_eq)
  from a b' c d' show ?thesis
    unfolding serialized_def enqueue_def by simp
qed

lemma serialized_settle:
  assumes "serialized st"
  shows "serialized (settle i ok st)"
proof (cases "i < length (tasks st) \<and> (tasks st ! i = Encrypting \<or> tasks st ! i = Transmitting \<or> tasks st ! i = Confirming)")
  case False
  then have "settle i ok st = st"
    by (auto simp: settle_def advance_idle)
  with assms show ?thesis by simp
next
  case True
  let ?n = "length (tasks st)"
  let ?p = "tasks st ! i"
  let ?ts = "(tasks st)[i := advance ?p ok]"
  from True have i: "i < ?n" and act: "?p = Encrypting \<or> ?p = Transmitting \<or> ?p = Confirming" by simp_all
  from act have sp: "started ?p" and nd: "?p \<noteq> Done" by auto
  from assms have a: "length (requested st) = ?n"
    and b: "\<And>k j. j < ?n \<Longrightarrow> started (tasks st ! j) \<Longrightarrow> k < j \<Longrightarrow> tasks st ! k = Done"
    and c: "sorted_wrt (<) (begun st)"
    and d: "\<And>j. j \<in> set (begun st) \<Longrightarrow> j < ?n \<and> handed_over (tasks st ! j)"
    unfolding serialized_def by blast+
  have later: "\<And>j. j < ?n \<Longrightarrow> started (tasks st ! j) \<Longrightarrow> j \<le> i"
  proof (rule ccontr)
    fix j assume j: "j < ?n" "started (tasks st ! j)" and "\<not> j \<le> i"
    then have "i < j" by simp
    from b [OF j this] nd show False by simp
  qed
  have b': "\<And>k j. j < length ?ts \<Longrightarrow> started (?ts ! j) \<Longrightarrow> k < j \<Longrightarrow> ?ts ! k = Done"
  proof -
    fix k j assume j: "j < length ?ts" and sj: "started (?ts ! j)" and k: "k < j"
    have "started (tasks st ! j)"
      using sj sp j by (cases "j = i") simp_all
    moreover from j have jn: "j < ?n" by simp
    ultimately have "j \<le> i" and "tasks st ! k = Done" using later b k by blast+
    with k show "?ts ! k = Done" by simp
  qed
  have d': "\<And>j. j \<in> set (begun st) \<Longrightarrow> j < length ?ts \<and> handed_over (?ts ! j)"
  proof -
    fix j assume "j \<in> set (begun st)"
    with d have j: "j < ?n" "handed_over (tasks st ! j)" by simp_all
    show "j < length ?ts \<and> handed_over (?ts ! j)"
      using j advance_active [OF act, of ok] by (cases "j = i") simp_all
  qed
  have rq: "requested (settle i ok st) = requested st"
    and ts: "tasks (settle i ok st) = ?ts"
    and bg: "begun (settle i ok st) = (if ?p = Encrypting \<and> ok then begun st @ [i] else begun st)"
    using i by (simp_all add: settle_def)
  show ?thesis
  proof (cases "?p = Encrypting \<and> ok")
    case False
    with bg have bg': "begun (settle i ok st) = begun st" by simp
    show ?thesis
      unfolding serialized_def rq ts bg' using a b' c d' by simp
  next
    case enc: True
    with bg have bg': "begun (settle i ok st) = begun st @ [i]" by simp
    have lt: "\<And>j. j \<in> set (begun st) \<Longrightarrow> j < i"
    proof -
      fix j assume jb: "j \<in> set (begun st)"
      with d have j: "j < ?n" "handed_over (tasks st ! j)" by simp_all
      then have "started (tasks st ! j)" by (cases "tasks st ! j") simp_all
      from later [OF j(1) this] have "j \<le> i" .
      moreover from j(2) enc have "j \<noteq> i" by auto
      ultimately show "j < i" by simp
    qed
    have c': "sorted_wrt (<) (begun st @ [i])"
      using c lt by (simp add: sorted_wrt_append)
    have hi: "handed_over (?ts ! i)"
      using advance_active [OF act, of ok] enc i by simp
    have d'': "\<And>j. j \<in> set (begun st @ [i]) \<Longrightarrow> j < length ?ts \<and> handed_over (?ts ! j)"
    proof -
      fix j assume "j \<in> set (begun st @ [i])"
      then have "j \<in> set (begun st) \<or> j = i" by auto
      then show "j < length ?ts \<and> handed_over (?ts ! j)"
        using d' hi i by auto
    qed
    show ?thesis
      unfolding serialized_def rq ts bg' using a b' c' d'' by simp
  qed
qed

lemma serialized_wake:
  assumes "serialized st" and "\<And>k. k < j \<Longrightarrow> tasks st ! k = Done"
  shows "serialized (wake s j st)"
proof (cases "j < length (tasks st) \<and> j < length (requested st) \<and> tasks st ! j = Waiting")
  case False
  then have "wake s j st = st" by (auto simp: wake_def)
  with assms show ?thesis by simp
next
  case True
  let ?n = "length (tasks st)"
  let ?p = "start_call s (requested st ! j)"
  let ?ts = "(tasks st)[j := ?p]"
  from True have j: "j < ?n" and w: "tasks st ! j = Waiting" by simp_all
  from assms(1) have a: "length (requested st) = ?n"
    and b: "\<And>k m. m < ?n \<Longrightarrow> started (tasks st ! m) \<Longrightarrow> k < m \<Longrightarrow> tasks st ! k = Done"
    and c: "sorted_wrt (<) (begun st)"
    and d: "\<And>m. m \<in> set (begun st) \<Longrightarrow> m < ?n \<and> handed_over (tasks st ! m)"
    unfolding serialized_def by blast+
  have later: "\<And>m. m < ?n \<Longrightarrow> started (tasks st ! m) \<Longrightarrow> m < j"
  proof (rule ccontr)
    fix m assume m: "m < ?n" "started (tasks st ! m)" and "\<not> m < j"
    moreover from m(2) w have "m \<noteq> j" by auto
    ultimately have "j < m" by simp
    from b [OF m this] w show False by simp
  qed
  have b': "\<And>k m. m < length ?ts \<Longrightarrow> started (?ts ! m) \<Longrightarrow> k < m \<Longrightarrow> ?ts ! k = Done"
  proof -
    fix k m assume m: "m < length ?ts" and sm: "started (?ts ! m)" and k: "k < m"
    show "?ts ! k = Done"
    proof (cases "m = j")
      case True
      with k assms(2) [of k] show ?thesis by simp
    next
      case False
      with sm m have "started (tasks st ! m)" "m < ?n" by simp_all
      from later [OF this(2,1)] b [OF this(2,1) k] k show ?thesis by simp
    qed
  qed
  have d': "\<And>m. m \<in> set (begun st) \<Longrightarrow> m < length ?ts \<and> handed_over (?ts ! m)"
  proof -
    fix m assume "m \<in> set (begun st)"
    with d have m: "m < ?n" "handed_over (tasks st ! m)" by simp_all
    with w have "m \<noteq> j" by auto
    with m show "m < length ?ts \<and> handed_over (?ts ! m)" by simp
  qed
  from a b' c d' have 1: "serialized (st\<lparr>tasks := ?ts\<rparr>)"
    unfolding serialized_def by simp
  from serialized_skip_from [OF 1, of "Suc j"]
  have 2: "serialized (st\<lparr>tasks := skip_from (Suc j) ?ts\<rparr>)" by simp
  show ?thesis
  proof (cases "?p = Failed")
    case f: True
    with True have "wake s j st = st\<lparr>tasks := skip_from (Suc j) ?ts\<rparr>"
      by (simp add: wake_def Let_def)
    with 2 show ?thesis by simp
  next
    case f: False
    with True have "wake s j st = st\<lparr>tasks := ?ts\<rparr>"
      by (simp add: wake_def Let_def)
    with 1 show ?thesis by simp
  qed
qed

lemma settle_length: "length (tasks (settle i ok st)) = length (tasks st)"
  by (simp add: settle_def)

lemma serialized_queued_step:
  assumes "serialized st"
  shows "serialized (queued_step s st e)"
proof (cases e)
  case (Call c)
  with serialized_enqueue [OF assms] show ?thesis by (simp add: queued_step_def)
next
  case (Settle i ok)
  let ?st1 = "settle i ok st"
  note s1 = serialized_settle [OF assms, of i ok]
  show ?thesis
  proof (cases "i < length (tasks st) \<and> tasks st ! i \<noteq> Done \<and> tasks ?st1 ! i = Done")
    case True
    then have i: "i < length (tasks ?st1)" and dn: "tasks ?st1 ! i = Done"
      by (simp_all add: settle_length)
    from dn have "started (tasks ?st1 ! i)" by simp
    with s1 i have "\<And>k. k < i \<Longrightarrow> tasks ?st1 ! k = Done"
      unfolding serialized_def by blast
    with dn have "\<And>k. k < Suc i \<Longrightarrow> tasks ?st1 ! k = Done"
      by (auto simp: less_Suc_eq)
    from serialized_wake [OF s1 this] True Settle show ?thesis
      by (simp add: queued_step_def Let_def)
  next
    case False
    with Settle s1 serialized_skip_from [OF s1, of "Suc i"] show ?thesis
      by (auto simp: queued_step_def Let_def)
  qed
qed

lemma serialized_queued_run: "serialized (queued_run s es)"
proof -
  have "\<And>st. serialized st \<Longrightarrow> serialized (foldl (queued_step s) st es)"
    by (induction es) (simp_all add: serialized_queued_step)
  from this [OF serialized_sender0] show ?thesis by (simp add: queued_run_def)
qed


lemma queued_run_order:
  "sorted_wrt (<) (begun (queued_run s es))
   \<and> (\<forall>j \<in> set (begun (queued_run s es)). \<forall>i < j. tasks (queued_run s es) ! i = Done)"
proof -
  from serialized_queued_run [of s es]
  have b: "\<And>i j. j < length (tasks (queued_run s es)) \<Longrightarrow> started (tasks (queued_run s es) ! j)
             \<Longrightarrow> i < j \<Longrightarrow> tasks (queued_run s es) ! i = Done"
    and c: "sorted_wrt (<) (begun (queued_run s es))"
    and d: "\<And>j. j \<in> set (begun (queued_run s es)) \<Longrightarrow>
             j < length (tasks (queued_run s es)) \<and> handed_over (tasks (queued_run s es) ! j)"
    unfolding serialized_def by blast+
  have "\<And>j i. j \<in> set (begun (queued_run s es)) \<Longrightarrow> i < j \<Longrightarrow> tasks (queued_run s es) ! i = Done"
  proof -
    fix j i assume j: "j \<in> set (begun (queued_run s es))" and i: "i < j"
    from d [OF j] have 1: "j < length (tasks (queued_run s es))"
      and 2: "handed_over (tasks (queued_run s es) ! j)" by simp_all
    from 2 have "started (tasks (queued_run s es) ! j)"
      by (cases "tasks (queued_run s es) ! j") simp_all
    from b [OF 1 this i] show "tasks (queued_run s es) ! i = Done" .
  qed
  with c show ?thesis by blast
qed

lemma queued_step_begins:
  assumes "j \<in> set (begun (queued_step s st e))" "j \<notin> set (begun st)"
  shows "e = Settle j True \<and> j < length (tasks st) \<and> tasks st ! j = Encrypting
       \<and> tasks (queued_step s st e) = (tasks st)[j := Transmitting]"
proof (cases e)
  case (Call c)
  with assms show ?thesis by (simp add: queued_step_def enqueue_def)
next
  case (Settle i ok)
  have bg: "begun (queued_step s st e) = begun (settle i ok st)"
    using Settle by (simp add: queued_step_def Let_def wake_def)
  with assms have grow: "begun (settle i ok st) \<noteq> begun st" by auto
  then have i: "i < length (tasks st)" and enc: "tasks st ! i = Encrypting" and ok: "ok"
    by (auto simp: settle_def split: if_splits)
  then have b2: "begun (settle i ok st) = begun st @ [i]"
    and t2: "tasks (settle i ok st) = (tasks st)[i := Transmitting]"
    by (simp_all add: settle_def)
  from assms bg b2 have ji: "j = i" by simp
  from Settle i enc t2 have "tasks (queued_step s st e) = (tasks st)[i := Transmitting]"
    by (simp add: queued_step_def Let_def)
  with ji i enc ok Settle show ?thesis by simp
qed

lemma queued_run_snoc: "queued_run s (es @ [e]) = queued_step s (queued_run s es) e"
  by (simp add: queued_run_def)

lemma begins_after_accepted:
  assumes "j \<in> set (begun (queued_run s (es @ [e])))" "j \<notin> set (begun (queued_run s es))" "i < j"
  shows "tasks (queued_run s es) ! i = Done"
proof -
  let ?st = "queued_run s es"
  from assms(1) have 1: "j \<in> set (begun (queued_step s ?st e))" by (simp add: queued_run_snoc)
  from queued_step_begins [OF 1 assms(2)]
  have j: "j < length (tasks ?st)"
    and t: "tasks (queued_run s (es @ [e])) = (tasks ?st)[j := Transmitting]"
    unfolding queued_run_snoc by blast+
  from queued_run_order [of s "es @ [e]"] assms(1,3)
  have "tasks (queued_run s (es @ [e])) ! i = Done" by blast
  with t assms(3) show ?thesis by simp
qed


text \<open>
  C4, as the code has it. With the send queue of \<open>addSendQueue\<close> around \<open>_sendSignal\<close>
  and \<open>_sendCandidate\<close>, and for every sequence of calls and of settlings of the awaited
  operations, in any order: the transactions are handed to the relay in the order in
  which the calls were made; every call whose transaction has been handed over has only
  accepted calls before it; and at the moment the transaction of a call is handed over
  (event \<open>e\<close>), every call made before it was already accepted by the relay.
\<close>

theorem send_queue_serializes:
  "sorted_wrt (<) (begun (queued_run s es))
   \<and> (\<forall>j \<in> set (begun (queued_run s es)). \<forall>i < j. tasks (queued_run s es) ! i = Done)
   \<and> (\<forall>j. j \<in> set (begun (queued_run s (es @ [e]))) \<and> j \<notin> set (begun (queued_run s es)) \<longrightarrow>
          (\<forall>i < j. tasks (queued_run s es) ! i = Done))"
  using queued_run_order [of s es] begins_after_accepted [of _ s es e] by blast

lemmas demo_queue_defs = queued_run_def queued_step_def enqueue_def settle_def wake_def
  skip_from_def bare_run_def bare_step_def start_call_def getPeerPubKey_def sender0_def
  call_a_def call_b_def alice_def build_sdk_def Let_def

theorem send_queue_serializes_witness:
  "1 \<in> set (begun (queued_run alice
       ([Call call_a, Call call_b, Settle 1 True, Settle 0 True, Settle 0 True, Settle 0 True]
        @ [Settle 1 True])))
   \<and> 1 \<notin> set (begun (queued_run alice
       [Call call_a, Call call_b, Settle 1 True, Settle 0 True, Settle 0 True, Settle 0 True]))
   \<and> begun (queued_run alice
       ([Call call_a, Call call_b, Settle 1 True, Settle 0 True, Settle 0 True, Settle 0 True]
        @ [Settle 1 True])) = [0, 1]
   \<and> tasks (queued_run alice
       [Call call_a, Call call_b, Settle 1 True, Settle 0 True, Settle 0 True, Settle 0 True]) ! 0
       = Done"
proof -
  let ?es = "[Call call_a, Call call_b, Settle 1 True, Settle 0 True, Settle 0 True, Settle 0 True]"
  have b1: "begun (queued_run alice (?es @ [Settle 1 True])) = [0, 1]"
    by (simp add: demo_queue_defs)
  have b0: "begun (queued_run alice ?es) = [0]"
    by (simp add: demo_queue_defs)
  from b1 have h1: "1 \<in> set (begun (queued_run alice (?es @ [Settle 1 True])))" by simp
  from b0 have h2: "1 \<notin> set (begun (queued_run alice ?es))" by simp
  from send_queue_serializes [of alice ?es "Settle 1 True"] h1 h2
  have "\<forall>i < 1. tasks (queued_run alice ?es) ! i = Done" by blast
  then have "tasks (queued_run alice ?es) ! 0 = Done" by simp
  with h1 h2 b1 show ?thesis by blast
qed

subsection \<open>The methods of the class do not\<close>

text \<open>
  C4, as written, fails for the methods of the class themselves. Alice calls
  \<open>_sendSignal\<close> and then \<open>_sendCandidate\<close>; the encryption of the second call completes
  first. The transaction of the second call is handed to the relay while the first call
  is still encrypting, and the relay receives the two in the order opposite to the calls.
\<close>

theorem sends_unordered_counterexample:
  "tasks (bare_run alice [Call call_a, Call call_b, Settle 1 True]) = [Encrypting, Transmitting]
   \<and> begun (bare_run alice [Call call_a, Call call_b, Settle 1 True]) = [1]
   \<and> begun (bare_run alice [Call call_a, Call call_b, Settle 1 True, Settle 0 True]) = [1, 0]"
  by (simp add: demo_queue_defs)


end
